theory Spec2Isabelle
  imports Main "HOL-Library.Word"
begin

section \<open>The Bayeux client of client.go\<close>

text \<open>
  A shallow embedding of \<^verbatim>\<open>client.go\<close>: the client's operations are functions from
  the state before a call to the result of the call and the state after it. The state
  (\<open>world\<close>) holds the fields of the Go struct \<^verbatim>\<open>Client\<close>, the heap cells the
  client's pointers refer to, and the client's trace on its surroundings: the HTTP
  requests it has posted, what it has sent on the subscribers' channels, what it has
  logged. Three things are not in the file and are parameters (\<open>env\<close>): the pattern
  compiler \<^verbatim>\<open>ohmyglob.Compile\<close>, \<^verbatim>\<open>http.DefaultClient\<close>, and the Go language
  version the package is built under, which decides how many variables a
  \<^verbatim>\<open>for ... range\<close> statement declares.

  The mutex of the client is not modelled: every function below is one call running
  alone, and the worker is run along a schedule of its own steps. A channel send that
  would wait (the queue of 100 is full, a subscriber is not reading) is taken after
  the wait, so the queue is a list without a bound; a send on a closed channel
  panics, and is modelled.
\<close>

subsection \<open>Wire types\<close>

text \<open>
  A value of type \<^verbatim>\<open>interface{}\<close> in an \<^verbatim>\<open>ext\<close> field: nil, a value that
  \<^verbatim>\<open>encoding/json\<close> encodes (kept as its encoding), or a value it rejects (kept as
  the message of the error \<^verbatim>\<open>json.Marshal\<close> returns for it).
\<close>

datatype iface = INil | JSONValue string | Unencodable string

record request =
  Channel :: string
  Data :: string
  Id :: string
  ClientId :: string
  Extension :: iface
  Version :: string
  MinimumVersion :: string
  SupportedConnectionTypes :: "string list"
  ConnectionType :: string
  Subscription :: string

record Message =
  Channel :: string
  Data :: string
  Id :: string
  ClientId :: string
  Extension :: iface

record advice =
  Reconnect :: string
  Timeout :: "64 word"
  Interval :: int

text \<open>\<^verbatim>\<open>metaMessage\<close> embeds \<^verbatim>\<open>Message\<close>: the record extends it.\<close>

record metaMessage = Message +
  Version :: string
  MinimumVersion :: string
  SupportedConnectionTypes :: "string list"
  ConnectionType :: string
  Timestamp :: string
  Successful :: bool
  Subscription :: string
  Error :: string
  Advice :: "advice option"

text \<open>The zero values of the two structs, as Go initialises the fields a literal leaves out.\<close>

definition request0 :: request where
  "request0 = \<lparr> request.Channel = [], request.Data = [], request.Id = [],
      request.ClientId = [], request.Extension = INil, request.Version = [],
      request.MinimumVersion = [], request.SupportedConnectionTypes = [],
      request.ConnectionType = [], request.Subscription = [] \<rparr>"

definition metaMessage0 :: metaMessage where
  "metaMessage0 = \<lparr> Channel = [], Data = [], Id = [], ClientId = [], Extension = INil,
      Version = [], MinimumVersion = [], SupportedConnectionTypes = [],
      ConnectionType = [], Timestamp = [], Successful = False, Subscription = [],
      Error = [], Advice = None \<rparr>"

definition VERSION :: string where
  "VERSION = ''1.0''"

definition MINIMUM_VERSION :: string where
  "MINIMUM_VERSION = ''1.0''"

subsection \<open>Errors and panics\<close>

text \<open>
  The \<^verbatim>\<open>error\<close> values the client returns, one constructor for each place that makes
  one: the four that \<open>send\<close> passes on from \<^verbatim>\<open>json.Marshal\<close>, \<^verbatim>\<open>http.Post\<close>,
  \<^verbatim>\<open>ioutil.ReadAll\<close> and \<^verbatim>\<open>json.Unmarshal\<close> (with the library's message),
  \<^verbatim>\<open>fmt.Errorf("HTTP Status %d", code)\<close>, \<^verbatim>\<open>fmt.Errorf("Invalid pattern: %s", err)\<close>
  and \<^verbatim>\<open>errors.New(rsp.Error)\<close>.
\<close>

datatype error =
    MarshalError string
  | PostError string
  | HTTPStatus int
  | ReadError string
  | UnmarshalError string
  | InvalidPattern string
  | ServerError string

text \<open>
  A call returns, or panics: on a nil pointer dereference, or on a send on a closed
  channel. A Go \<^verbatim>\<open>error\<close> result is an \<open>error option\<close>, \<open>None\<close> for nil.
\<close>

datatype 'a outcome = Return 'a | Panic

subsection \<open>The collaborators\<close>

text \<open>
  A compiled pattern of \<^verbatim>\<open>ohmyglob\<close>, by the two methods the client calls.
\<close>

record Glob =
  String :: string
  MatchString :: "string \<Rightarrow> bool"

text \<open>
  What one \<^verbatim>\<open>http.Post\<close> gives the client: an error, or a response with its status
  code and its body. The body is kept as the client will find it: \<^verbatim>\<open>ioutil.ReadAll\<close>
  fails, or \<^verbatim>\<open>json.Unmarshal\<close> into \<^verbatim>\<open>[]metaMessage\<close> fails, or it yields the batch.
\<close>

datatype body = ReadFails string | Malformed string | Envelopes "metaMessage list"

datatype response = PostFails string | Response int body

text \<open>
  A posted request: the URL, the content type and the body, which is the encoding of a
  batch of requests and is kept as the batch. The transport (the \<^verbatim>\<open>*http.Client\<close> and
  the server behind it) answers a post knowing all posts so far, the last being the
  one it answers.
\<close>

type_synonym post = "string \<times> string \<times> request list"

type_synonym transport = "post list \<Rightarrow> response"

text \<open>The \<^verbatim>\<open>tomb.Tomb\<close> of the worker: the reason it was killed for, none while alive.\<close>

record Tomb =
  reason :: "string option"

definition Killf :: "string \<Rightarrow> Tomb \<Rightarrow> Tomb" where
  "Killf f t = (case reason t of None \<Rightarrow> t\<lparr>reason := Some f\<rparr> | Some r \<Rightarrow> t)"

definition Dying :: "Tomb \<Rightarrow> bool" where
  "Dying t = (reason t \<noteq> None)"

subsection \<open>The client and its surroundings\<close>

type_synonym addr = nat

type_synonym chan = nat

record subscription =
  glob :: Glob
  out :: chan

text \<open>
  The values the map \<^verbatim>\<open>subscriptions\<close> holds (\<^verbatim>\<open>map[string]interface{}\<close>): a
  \<^verbatim>\<open>subscription\<close>, stored by \<open>subscribe\<close>, or a string, stored by
  \<open>doForgetSubscription\<close>.
\<close>

datatype entry = ISubscription subscription | IString string

text \<open>
  The struct \<^verbatim>\<open>Client\<close>. The channel \<^verbatim>\<open>messages\<close> is the list of the pointers it
  buffers, oldest first; a pointer to a \<^verbatim>\<open>Message\<close> is the address of the
  \<^verbatim>\<open>metaMessage\<close> it is embedded in.
\<close>

record Client =
  url :: string
  clientId :: string
  tomb :: "Tomb option"
  subscriptions :: "string \<rightharpoonup> entry"
  messages :: "addr list"
  connected :: bool
  http :: transport
  interval :: "64 word"

text \<open>
  The world is the client together with: the heap of \<^verbatim>\<open>metaMessage\<close> variables and
  the next free address; the posts made so far; for each subscriber channel the
  pointers sent on it, oldest first, and whether it has been closed; the errors logged.
\<close>

record world = Client +
  heap :: "addr \<Rightarrow> metaMessage"
  brk :: addr
  posts :: "post list"
  outs :: "chan \<Rightarrow> addr list"
  closed_chans :: "chan set"
  logged :: "error list"

text \<open>
  \<open>loopvar_per_iteration\<close> is true when the package is built with the semantics of
  Go 1.22 and later, where each iteration of a \<^verbatim>\<open>for\<close> statement has its own copy of
  the variables the statement declares. It is false for every earlier version of the
  language, and for any module whose \<^verbatim>\<open>go.mod\<close> does not ask for 1.22 or later: there
  the statement declares its variables once.
\<close>

record env =
  Compile :: "string \<Rightarrow> string + Glob"
  DefaultClient :: transport
  loopvar_per_iteration :: bool

definition NewClient :: "env \<Rightarrow> string \<Rightarrow> transport option \<Rightarrow> Client" where
  "NewClient E u httpClient =
     \<lparr> url = u, clientId = [], tomb = None, subscriptions = Map.empty, messages = [],
       connected = False,
       http = (case httpClient of None \<Rightarrow> DefaultClient E | Some h \<Rightarrow> h),
       interval = 0 \<rparr>"

text \<open>
  The world of a client that has done nothing yet: nothing allocated, posted, sent
  or logged, and no subscriber channel closed.
\<close>

definition start :: "Client \<Rightarrow> world" where
  "start c =
     \<lparr> url = url c, clientId = clientId c, tomb = tomb c, subscriptions = subscriptions c,
       messages = messages c, connected = connected c, http = http c,
       interval = interval c,
       heap = (\<lambda>a. metaMessage0), brk = 0, posts = [], outs = (\<lambda>d. []),
       closed_chans = {}, logged = [] \<rparr>"

subsection \<open>send\<close>

text \<open>
  \<^verbatim>\<open>json.Marshal([]*request{req})\<close>: the only field of a request whose encoding can
  fail is \<^verbatim>\<open>ext\<close> (\<^verbatim>\<open>Data\<close> is never set by this client).
\<close>

definition Marshal :: "request \<Rightarrow> string + request list" where
  "Marshal req =
     (case request.Extension req of Unencodable e \<Rightarrow> Inl e | _ \<Rightarrow> Inr [req])"

text \<open>A new variable on the heap.\<close>

definition new :: "world \<Rightarrow> addr \<times> world" where
  "new w = (brk w, w\<lparr>brk := Suc (brk w)\<rparr>)"

text \<open>
  The loop at the end of \<open>send\<close>:
  \<^verbatim>\<open>
  for _, msg := range messages {
      if req.Channel == msg.Channel { reply = &msg } else { c.messages <- &msg.Message }
  }
  \<close>
  Each iteration assigns the next element of the batch to \<^verbatim>\<open>msg\<close>, and what is kept is
  the address of \<^verbatim>\<open>msg\<close>, not its value. \<open>v\<close> is the address of \<^verbatim>\<open>msg\<close>: the same
  in every iteration when the statement declares \<^verbatim>\<open>msg\<close> once (\<open>send\<close> allocates
  it when the statement begins), a new one in each iteration otherwise (and the
  \<open>v\<close> passed in is not used).
\<close>

fun range_messages ::
  "bool \<Rightarrow> string \<Rightarrow> addr \<Rightarrow> metaMessage list \<Rightarrow> addr option \<Rightarrow> world \<Rightarrow> addr option \<times> world"
where
  "range_messages per_iteration ch v [] reply w = (reply, w)"
| "range_messages per_iteration ch v (m # ms) reply w =
     (let (v', wa) = (if per_iteration then new w else (v, w));
          w1 = wa\<lparr>heap := (heap wa)(v' := m)\<rparr>
      in if ch = Channel m
         then range_messages per_iteration ch v' ms (Some v') w1
         else range_messages per_iteration ch v' ms reply
                (w1\<lparr>messages := messages w1 @ [v']\<rparr>))"

text \<open>
  \<open>send\<close> returns \<^verbatim>\<open>(nil, err)\<close> with an error (\<open>Inl err\<close>) or \<^verbatim>\<open>(reply, nil)\<close>
  (\<open>Inr reply\<close>), where the reply may be nil (\<open>None\<close>).
\<close>

definition send :: "env \<Rightarrow> request \<Rightarrow> world \<Rightarrow> (error + addr option) \<times> world" where
  "send E req w =
     (case Marshal req of
        Inl e \<Rightarrow> (Inl (MarshalError e), w)
      | Inr data \<Rightarrow>
          (let w1 = w\<lparr>posts := posts w @ [(url w, ''application/json'', data)]\<rparr>
           in case http w1 (posts w1) of
                PostFails e \<Rightarrow> (Inl (PostError e), w1)
              | Response StatusCode Body \<Rightarrow>
                  if StatusCode \<noteq> 200 then (Inl (HTTPStatus StatusCode), w1)
                  else (case Body of
                          ReadFails e \<Rightarrow> (Inl (ReadError e), w1)
                        | Malformed e \<Rightarrow> (Inl (UnmarshalError e), w1)
                        | Envelopes msgs \<Rightarrow>
                            (let (v, w2) = (if loopvar_per_iteration E then (brk w1, w1)
                                            else new w1);
                                 (reply, w3) =
                                   range_messages (loopvar_per_iteration E)
                                     (request.Channel req) v msgs None w2
                             in (Inr reply, w3)))))"

subsection \<open>The operations\<close>

definition handshake :: "env \<Rightarrow> world \<Rightarrow> error option outcome \<times> world" where
  "handshake E w =
     (case send E (request0\<lparr> request.Channel := ''/meta/handshake'',
                     request.Version := VERSION,
                     request.MinimumVersion := MINIMUM_VERSION,
                     request.SupportedConnectionTypes := [''long-polling''] \<rparr>) w of
        (Inl err, w1) \<Rightarrow> (Return (Some err), w1)
      | (Inr None, w1) \<Rightarrow> (Panic, w1)
      | (Inr (Some rsp), w1) \<Rightarrow>
          if \<not> Successful (heap w1 rsp)
          then (Return (Some (ServerError (Error (heap w1 rsp)))), w1)
          else (Return None, w1\<lparr>clientId := ClientId (heap w1 rsp)\<rparr>))"

definition connect :: "env \<Rightarrow> world \<Rightarrow> (error + addr option) \<times> world" where
  "connect E w =
     send E (request0\<lparr> request.Channel := ''/meta/connect'',
               request.ClientId := clientId w,
               request.ConnectionType := ''long-polling'' \<rparr>) w"

definition disconnect :: "env \<Rightarrow> world \<Rightarrow> error option outcome \<times> world" where
  "disconnect E w =
     (case send E (request0\<lparr> request.Channel := ''/meta/disconnect'',
                     request.ClientId := clientId w \<rparr>) w of
        (Inl err, w1) \<Rightarrow> (Return (Some err), w1)
      | (Inr None, w1) \<Rightarrow> (Panic, w1)
      | (Inr (Some rsp), w1) \<Rightarrow>
          if \<not> Successful (heap w1 rsp)
          then (Return (Some (ServerError (Error (heap w1 rsp)))), w1)
          else (Return None, w1))"

definition subscribe :: "env \<Rightarrow> string \<Rightarrow> chan \<Rightarrow> iface \<Rightarrow> world \<Rightarrow> error option outcome \<times> world" where
  "subscribe E pattern outc ext w =
     (case Compile E pattern of
        Inl err \<Rightarrow> (Return (Some (InvalidPattern err)), w)
      | Inr g \<Rightarrow>
          (case send E (request0\<lparr> request.Channel := ''/meta/subscribe'',
                          request.ClientId := clientId w,
                          request.Subscription := pattern,
                          request.Extension := ext \<rparr>) w of
             (Inl err, w1) \<Rightarrow> (Return (Some err), w1)
           | (Inr None, w1) \<Rightarrow> (Panic, w1)
           | (Inr (Some rsp), w1) \<Rightarrow>
               if \<not> Successful (heap w1 rsp)
               then (Return (Some (ServerError (Error (heap w1 rsp)))), w1)
               else (Return None,
                     w1\<lparr>subscriptions := (subscriptions w1)
                          (String g \<mapsto> ISubscription \<lparr>glob = g, out = outc\<rparr>)\<rparr>)))"

definition doForgetSubscription :: "string \<Rightarrow> world \<Rightarrow> world" where
  "doForgetSubscription pattern w =
     w\<lparr>subscriptions := (subscriptions w)(pattern \<mapsto> IString [])\<rparr>"

definition Unsubscribe :: "env \<Rightarrow> string \<Rightarrow> world \<Rightarrow> error option outcome \<times> world" where
  "Unsubscribe E pattern w =
     (case send E (request0\<lparr> request.Channel := ''/meta/unsubscribe'',
                     request.ClientId := clientId w,
                     request.Subscription := pattern \<rparr>) w of
        (Inl err, w1) \<Rightarrow> (Return (Some err), w1)
      | (Inr None, w1) \<Rightarrow> (Panic, w1)
      | (Inr (Some rsp), w1) \<Rightarrow>
          if \<not> Successful (heap w1 rsp)
          then (Return (Some (ServerError (Error (heap w1 rsp)))), w1)
          else (Return None, doForgetSubscription pattern w1))"

text \<open>
  \<open>ensureConnected\<close> reads \<^verbatim>\<open>connected\<close> twice, under the read lock and again under
  the write lock; in a call that runs alone the two reads agree. On a handshake that
  returns nil it creates the tomb and starts the worker.
\<close>

definition ensureConnected :: "env \<Rightarrow> world \<Rightarrow> error option outcome \<times> world" where
  "ensureConnected E w =
     (if connected w then (Return None, w)
      else (case handshake E w of
              (Return None, w1) \<Rightarrow>
                (Return None, w1\<lparr>connected := True, tomb := Some \<lparr>reason = None\<rparr>\<rparr>)
            | (r, w1) \<Rightarrow> (r, w1)))"

definition Connect :: "env \<Rightarrow> world \<Rightarrow> error option outcome \<times> world" where
  "Connect E w = ensureConnected E w"

text \<open>
  \<open>Close\<close> calls \<^verbatim>\<open>c.tomb.Killf("Close")\<close> first; \<^verbatim>\<open>Killf\<close> reads and writes the
  fields of the tomb it is called on, so on a nil \<^verbatim>\<open>c.tomb\<close> it panics.
\<close>

definition Close :: "env \<Rightarrow> world \<Rightarrow> error option outcome \<times> world" where
  "Close E w =
     (case tomb w of
        None \<Rightarrow> (Panic, w)
      | Some t \<Rightarrow> disconnect E (w\<lparr>tomb := Some (Killf ''Close'' t), connected := False\<rparr>))"

definition SubscribeExt :: "env \<Rightarrow> string \<Rightarrow> chan \<Rightarrow> iface \<Rightarrow> world \<Rightarrow> error option outcome \<times> world" where
  "SubscribeExt E pattern outc ext w =
     (case ensureConnected E w of
        (Return None, w1) \<Rightarrow> subscribe E pattern outc ext w1
      | (r, w1) \<Rightarrow> (r, w1))"

definition Subscribe :: "env \<Rightarrow> string \<Rightarrow> chan \<Rightarrow> world \<Rightarrow> error option outcome \<times> world" where
  "Subscribe E pattern outc w = SubscribeExt E pattern outc INil w"

subsection \<open>The worker\<close>

text \<open>
  The first case of the worker's \<^verbatim>\<open>select\<close>, for a message pointer \<open>msg\<close> taken from
  the queue:
  \<^verbatim>\<open>
  for _, sub := range c.subscriptions {
      if s, subOpened := sub.(subscription); subOpened {
          if s.glob.MatchString(msg.Channel) { s.out <- msg }
      }
  }
  \<close>
  Go ranges over a map in an order of its choosing: \<open>ks\<close> is the order in which this
  loop meets the keys. A send that finds its channel closed panics, and the loop
  stops there.
\<close>

fun deliver :: "string list \<Rightarrow> addr \<Rightarrow> world \<Rightarrow> unit outcome \<times> world" where
  "deliver [] msg w = (Return (), w)"
| "deliver (k # ks) msg w =
     (case subscriptions w k of
        Some (ISubscription s) \<Rightarrow>
          if MatchString (glob s) (Channel (heap w msg))
          then (if out s \<in> closed_chans w then (Panic, w)
                else deliver ks msg (w\<lparr>outs := (outs w)(out s := outs w (out s) @ [msg])\<rparr>))
          else deliver ks msg w
      | _ \<Rightarrow> deliver ks msg w)"

text \<open>
  The case a \<^verbatim>\<open>select\<close> of the worker takes: a message is ready on the queue (with
  the order of the range over the map), the tomb is dying, or the timer has fired.
\<close>

datatype ready = Message_ready "string list" | Tomb_dying | Timer_fired

datatype status = Running | Returned | Panicked

text \<open>
  The worker's loop never ends by itself, so it is run along a schedule: the list of
  the cases its successive \<^verbatim>\<open>select\<close>s take. A case that is not ready (no message on
  the queue, a tomb that is not dying) cannot be taken, and is passed over. At
  the end of the schedule the worker is still \<open>Running\<close>, unless it has returned or
  panicked before. Each \<^verbatim>\<open>select\<close> evaluates \<^verbatim>\<open>c.tomb.Dying()\<close>, which panics on a nil
  tomb.
\<close>

fun worker :: "env \<Rightarrow> ready list \<Rightarrow> world \<Rightarrow> status \<times> world" where
  "worker E [] w = (Running, w)"
| "worker E (r # rs) w =
     (case tomb w of
        None \<Rightarrow> (Panicked, w)
      | Some t \<Rightarrow>
          (case r of
             Message_ready ks \<Rightarrow>
               (case messages w of
                  [] \<Rightarrow> worker E rs w
                | msg # q \<Rightarrow>
                    (case deliver ks msg (w\<lparr>messages := q\<rparr>) of
                       (Panic, w1) \<Rightarrow> (Panicked, w1)
                     | (Return u, w1) \<Rightarrow> worker E rs w1))
           | Tomb_dying \<Rightarrow> if Dying t then (Returned, w) else worker E rs w
           | Timer_fired \<Rightarrow>
               (case connect E w of
                  (Inl err, w1) \<Rightarrow> worker E rs (w1\<lparr>logged := logged w1 @ [err]\<rparr>)
                | (Inr rsp, w1) \<Rightarrow> worker E rs w1)))"

subsection \<open>Notions the properties are stated with\<close>

text \<open>
  A response that \<open>send\<close> goes on to decode: the post itself succeeded, the status is
  200, the body was read and is a batch of envelopes.
\<close>

definition accepted :: "response \<Rightarrow> bool" where
  "accepted r = (case r of
                   PostFails e \<Rightarrow> False
                 | Response c b \<Rightarrow>
                     (if c = 200 then (case b of Envelopes ms \<Rightarrow> True | _ \<Rightarrow> False)
                      else False))"

text \<open>The worker has been told to stop: the client has a tomb, and the tomb is dying.\<close>

definition killed :: "world \<Rightarrow> bool" where
  "killed w = (case tomb w of None \<Rightarrow> False | Some t \<Rightarrow> Dying t)"

text \<open>What the specification calls a success status: the codes 200 to 299.\<close>

definition spec_success_status :: "int \<Rightarrow> bool" where
  "spec_success_status c = (200 \<le> c \<and> c < 300)"

text \<open>
  The entry under key \<open>k\<close> is a subscription, its destination is \<open>d\<close>, and its pattern
  matches the channel of the message at \<open>msg\<close>.
\<close>

definition routes :: "world \<Rightarrow> addr \<Rightarrow> chan \<Rightarrow> string \<Rightarrow> bool" where
  "routes w msg d k =
     (case subscriptions w k of
        Some (ISubscription s) \<Rightarrow> out s = d \<and> MatchString (glob s) (Channel (heap w msg))
      | _ \<Rightarrow> False)"

subsection \<open>Example inputs\<close>

text \<open>
  A stand-in for the pattern compiler, used in the examples only: it rejects a pattern
  with a bracket, and a pattern that ends in a star matches every channel that starts
  with what precedes the star. \<open>String\<close> gives back the pattern compiled.
\<close>

definition example_glob :: "string \<Rightarrow> Glob" where
  "example_glob p =
     \<lparr> String = p,
       MatchString = (\<lambda>s. case rev p of
                              c # q \<Rightarrow> if c = CHR ''*'' then take (length q) s = rev q else s = p
                            | [] \<Rightarrow> s = p) \<rparr>"

definition example_Compile :: "string \<Rightarrow> string + Glob" where
  "example_Compile p =
     (if CHR ''['' \<in> set p then Inl ''unexpected ['' else Inr (example_glob p))"

text \<open>A transport whose server answers every post with status 200 and the same batch.\<close>

definition serve :: "metaMessage list \<Rightarrow> transport" where
  "serve ms = (\<lambda>ps. Response 200 (Envelopes ms))"

definition example_env :: "bool \<Rightarrow> env" where
  "example_env per_iteration =
     \<lparr> Compile = example_Compile, DefaultClient = (\<lambda>ps. PostFails ''connection refused''),
       loopvar_per_iteration = per_iteration \<rparr>"

definition example_world :: "transport \<Rightarrow> world" where
  "example_world t = start (NewClient (example_env False) ''http://localhost/cometd'' (Some t))"

text \<open>A reply of the server on a meta channel, and a message pushed on a channel.\<close>

definition reply_on :: "string \<Rightarrow> bool \<Rightarrow> string \<Rightarrow> metaMessage" where
  "reply_on ch ok err = metaMessage0\<lparr>Channel := ch, Successful := ok, Error := err\<rparr>"

definition pushed :: "string \<Rightarrow> string \<Rightarrow> metaMessage" where
  "pushed ch d = metaMessage0\<lparr>Channel := ch, Data := d\<rparr>"

definition connect_batch :: "metaMessage list" where
  "connect_batch =
     [reply_on ''/meta/connect'' True [], pushed ''/chat/a'' ''1'', pushed ''/chat/b'' ''2'']"

text \<open>A transport whose server answers every post with the same status and body.\<close>

definition answering :: "int \<Rightarrow> body \<Rightarrow> transport" where
  "answering c b = (\<lambda>ps. Response c b)"

text \<open>
  A transport whose server answers a post with status 200 and one successful reply
  for each request of the batch posted, on the channel of the request.
\<close>

definition obliging :: transport where
  "obliging ps =
     (case rev ps of
        [] \<Rightarrow> Response 200 (Envelopes [])
      | (u, t, reqs) # older \<Rightarrow>
          Response 200 (Envelopes (map (\<lambda>r. reply_on (request.Channel r) True []) reqs)))"

text \<open>
  A connected client with one subscription, \<^verbatim>\<open>/foo/*\<close> to the channel 1, and a pushed
  message for \<^verbatim>\<open>/foo/bar\<close> at address 0, waiting on the queue.
\<close>

definition foo_world :: "transport \<Rightarrow> world" where
  "foo_world t =
     (example_world t)
       \<lparr> tomb := Some \<lparr>reason = None\<rparr>,
         subscriptions :=
           [''/foo/*'' \<mapsto> ISubscription \<lparr>glob = example_glob ''/foo/*'', out = 1\<rparr>],
         messages := [0], connected := True,
         heap := (\<lambda>a. pushed ''/foo/bar'' ''x''), brk := 1 \<rparr>"

text \<open>
  A connected client with two subscriptions, \<^verbatim>\<open>/chat/*\<close> to the channel 1 and
  \<^verbatim>\<open>/news/*\<close> to the channel 2, a forgotten one under \<^verbatim>\<open>/old\<close>, and a pushed message
  for \<^verbatim>\<open>/chat/a\<close> at address 0, waiting on the queue.
\<close>

definition chat_world :: world where
  "chat_world =
     (example_world (serve []))
       \<lparr> tomb := Some \<lparr>reason = None\<rparr>,
         subscriptions :=
           [''/chat/*'' \<mapsto> ISubscription \<lparr>glob = example_glob ''/chat/*'', out = 1\<rparr>,
            ''/news/*'' \<mapsto> ISubscription \<lparr>glob = example_glob ''/news/*'', out = 2\<rparr>,
            ''/old'' \<mapsto> IString []],
         messages := [0], connected := True,
         heap := (\<lambda>a. pushed ''/chat/a'' ''hi''), brk := 1 \<rparr>"

text \<open>
  A compiler that trims the blanks around a pattern before it compiles it, so that
  \<open>String\<close> gives back the trimmed pattern.
\<close>

definition trim :: "string \<Rightarrow> string" where
  "trim p = rev (dropWhile (\<lambda>c. c = CHR '' '') (rev (dropWhile (\<lambda>c. c = CHR '' '') p)))"

definition trimming_env :: env where
  "trimming_env =
     \<lparr> Compile = (\<lambda>p. example_Compile (trim p)),
       DefaultClient = (\<lambda>ps. PostFails ''connection refused''),
       loopvar_per_iteration = False \<rparr>"

text \<open>
  A connected client with no subscription, and a pushed message for \<^verbatim>\<open>/foo/bar\<close> at
  address 0.
\<close>

definition bare_world :: world where
  "bare_world = (foo_world obliging)\<lparr>subscriptions := Map.empty\<rparr>"

section \<open>Properties\<close>

lemmas example_defs =
  example_world_def start_def NewClient_def example_env_def serve_def connect_batch_def
  reply_on_def pushed_def metaMessage0_def request0_def Marshal_def

lemmas more_example_defs =
  answering_def obliging_def foo_world_def chat_world_def example_glob_def
  example_Compile_def

lemmas eval_defs = send_def Let_def new_def example_defs more_example_defs

lemmas trimming_defs = trimming_env_def trim_def bare_world_def

subsection \<open>The loop of send\<close>

text \<open>
  When the range statement declares \<^verbatim>\<open>msg\<close> once, every pointer the loop keeps is the
  address of that one variable, which holds the last envelope of the batch when the
  loop is over.
\<close>

lemma range_messages_shared:
  "ms \<noteq> [] \<Longrightarrow> range_messages False ch v ms reply w =
     ((if list_ex (\<lambda>m. Channel m = ch) ms then Some v else reply),
      w\<lparr>heap := (heap w)(v := last ms),
        messages := messages w @ replicate (length (filter (\<lambda>m. Channel m \<noteq> ch) ms)) v\<rparr>)"
proof (induction ms arbitrary: reply w)
  case Nil
  then show ?case by simp
next
  case (Cons m ms)
  show ?case
  proof (cases "Channel m = ch")
    case True
    then show ?thesis
      by (cases "ms = []") (simp_all add: Let_def Cons.IH del: fun_upd_apply)
  next
    case False
    then show ?thesis
      by (cases "ms = []")
         (simp_all add: Let_def Cons.IH replicate_app_Cons_same del: fun_upd_apply)
  qed
qed

text \<open>
  C1. The claim: send returns the envelope of the batch whose channel is the request's,
  and puts every other envelope on the queue, in the order of the batch. What the
  code does when the package is built with one loop variable per range statement
  (every Go version before 1.22): on a status 200 and a batch \<open>ms\<close> that is not empty,
  send returns a pointer exactly when some envelope is on the request's channel, but
  the pointer is to the loop variable, and so are all the pointers it puts on the
  queue, one for each other envelope; after the loop that variable holds the last
  envelope of the batch. The caller and the worker therefore read the last envelope
  of the batch, whichever envelope the pointer was taken for.
\<close>

theorem send_keeps_address_of_loop_variable:
  assumes "\<not> loopvar_per_iteration E"
    and "Marshal req = Inr data"
    and "http w (posts w @ [(url w, ''application/json'', data)]) = Response 200 (Envelopes ms)"
    and "ms \<noteq> []"
  shows "send E req w =
     (Inr (if list_ex (\<lambda>m. Channel m = request.Channel req) ms then Some (brk w) else None),
      w\<lparr>posts := posts w @ [(url w, ''application/json'', data)],
        brk := Suc (brk w),
        heap := (heap w)(brk w := last ms),
        messages := messages w @
          replicate (length (filter (\<lambda>m. Channel m \<noteq> request.Channel req) ms)) (brk w)\<rparr>)"
  using assms by (simp add: send_def new_def Let_def range_messages_shared)

text \<open>
  The batch of C1: the reply to \<^verbatim>\<open>/meta/connect\<close> and two pushed messages after it.
  \<open>connect\<close> returns the address 0, and the queue holds that address twice; the
  variable at 0 holds the second pushed message, not the connect reply, and the
  first pushed message is nowhere.
\<close>

theorem send_keeps_address_of_loop_variable_witness:
  "fst (connect (example_env False) (example_world (serve connect_batch))) = Inr (Some 0)
   \<and> heap (snd (connect (example_env False) (example_world (serve connect_batch)))) 0
       = pushed ''/chat/b'' ''2''
   \<and> messages (snd (connect (example_env False) (example_world (serve connect_batch))))
       = [0, 0]"
  using send_keeps_address_of_loop_variable
    [of "example_env False"
        "request0\<lparr>request.Channel := ''/meta/connect'', request.ClientId := [],
                  request.ConnectionType := ''long-polling''\<rparr>"
        "[request0\<lparr>request.Channel := ''/meta/connect'', request.ClientId := [],
                  request.ConnectionType := ''long-polling''\<rparr>]"
        "example_world (serve connect_batch)" connect_batch]
  by (simp add: connect_def example_defs)

subsection \<open>What send leaves alone, and when its reply is nil\<close>

text \<open>
  Under either reading of the range statement, \<open>send\<close> changes nothing of the world
  but the heap, the queue and the list of posts.
\<close>

lemma range_messages_frame:
  "\<exists>h b q. snd (range_messages pi ch v ms reply w) = w\<lparr>heap := h, brk := b, messages := q\<rparr>"
proof (induction ms arbitrary: v reply w)
  case Nil
  show ?case
    by (simp, rule exI [of _ "heap w"], rule exI [of _ "brk w"], rule exI [of _ "messages w"], simp)
next
  case (Cons m ms)
  define v' where "v' = (if pi then brk w else v)"
  define wa where "wa = (if pi then w\<lparr>brk := Suc (brk w)\<rparr> else w)"
  define w1 where "w1 = wa\<lparr>heap := (heap wa)(v' := m)\<rparr>"
  define w2 where "w2 = (if ch = Channel m then w1 else w1\<lparr>messages := messages w1 @ [v']\<rparr>)"
  define r2 where "r2 = (if ch = Channel m then Some v' else reply)"
  have step: "range_messages pi ch v (m # ms) reply w = range_messages pi ch v' ms r2 w2"
    by (simp add: v'_def wa_def w1_def w2_def r2_def new_def Let_def del: fun_upd_apply)
  from Cons.IH [of v' r2 w2] obtain h b q
    where "snd (range_messages pi ch v' ms r2 w2) = w2\<lparr>heap := h, brk := b, messages := q\<rparr>"
    by blast
  then have "snd (range_messages pi ch v (m # ms) reply w) = w\<lparr>heap := h, brk := b, messages := q\<rparr>"
    unfolding step by (simp add: w2_def w1_def wa_def del: fun_upd_apply)
  then show ?case by blast
qed

lemma send_frame:
  "\<exists>h b q p. snd (send E req w) = w\<lparr>heap := h, brk := b, messages := q, posts := p\<rparr>"
proof -
  have self: "w = w\<lparr>heap := heap w, brk := brk w, messages := messages w, posts := posts w\<rparr>"
    by simp
  have upd: "\<And>p. w\<lparr>posts := p\<rparr> = w\<lparr>heap := heap w, brk := brk w, messages := messages w, posts := p\<rparr>"
    by simp
  show ?thesis
  proof (cases "Marshal req")
    case (Inl e)
    then have "snd (send E req w) = w" by (simp add: send_def)
    with self show ?thesis by metis
  next
    case (Inr data)
    define w1 where "w1 = w\<lparr>posts := posts w @ [(url w, ''application/json'', data)]\<rparr>"
    show ?thesis
    proof (cases "\<exists>ms. http w1 (posts w1) = Response 200 (Envelopes ms)")
      case False
      then have "snd (send E req w) = w1"
        using Inr
        by (auto simp: send_def w1_def Let_def split: response.splits body.splits)
      then show ?thesis unfolding w1_def using upd by metis
    next
      case True
      then obtain ms where ms: "http w1 (posts w1) = Response 200 (Envelopes ms)" by blast
      define w2 where "w2 = (if loopvar_per_iteration E then w1 else w1\<lparr>brk := Suc (brk w1)\<rparr>)"
      from range_messages_frame [of "loopvar_per_iteration E" "request.Channel req" "brk w1" ms None w2]
      obtain h b q where
        "snd (range_messages (loopvar_per_iteration E) (request.Channel req) (brk w1) ms None w2)
           = w2\<lparr>heap := h, brk := b, messages := q\<rparr>" by blast
      moreover have "snd (send E req w) =
          snd (range_messages (loopvar_per_iteration E) (request.Channel req) (brk w1) ms None w2)"
        using Inr ms
        by (simp add: send_def w1_def w2_def Let_def new_def split: prod.splits)
      ultimately have "snd (send E req w) =
          w\<lparr>heap := h, brk := b, messages := q, posts := posts w @ [(url w, ''application/json'', data)]\<rparr>"
        by (simp add: w2_def w1_def)
      then show ?thesis by blast
    qed
  qed
qed

lemma range_messages_Cons:
  "range_messages pi ch v (m # ms) reply w =
     (let v' = (if pi then brk w else v);
          wa = (if pi then w\<lparr>brk := Suc (brk w)\<rparr> else w);
          w1 = wa\<lparr>heap := (heap wa)(v' := m)\<rparr>
      in range_messages pi ch v' ms (if ch = Channel m then Some v' else reply)
           (if ch = Channel m then w1 else w1\<lparr>messages := messages w1 @ [v']\<rparr>))"
  by (simp add: new_def Let_def del: fun_upd_apply)

lemma range_messages_reply:
  "fst (range_messages pi ch v ms reply w) = None
     \<longleftrightarrow> reply = None \<and> \<not> list_ex (\<lambda>m. Channel m = ch) ms"
proof (induction ms arbitrary: v reply w)
  case Nil
  show ?case by simp
next
  case (Cons m ms)
  have "fst (range_messages pi ch v (m # ms) reply w) = None
      \<longleftrightarrow> (if ch = Channel m then Some (if pi then brk w else v) else reply) = None
          \<and> \<not> list_ex (\<lambda>m. Channel m = ch) ms"
    by (simp only: range_messages_Cons Let_def Cons.IH)
  then show ?case by auto
qed

lemma send_reply_nil:
  assumes "Marshal req = Inr data"
    and "http w (posts w @ [(url w, ''application/json'', data)]) = Response 200 (Envelopes ms)"
  shows "fst (send E req w) = Inr None \<longleftrightarrow> \<not> list_ex (\<lambda>m. Channel m = request.Channel req) ms"
    and "\<exists>reply. fst (send E req w) = Inr reply"
  using assms range_messages_reply
    [of "loopvar_per_iteration E" "request.Channel req" "brk w" ms None
        "w\<lparr>posts := posts w @ [(url w, ''application/json'', data)], brk := Suc (brk w)\<rparr>"]
    range_messages_reply
    [of "loopvar_per_iteration E" "request.Channel req" "brk w" ms None
        "w\<lparr>posts := posts w @ [(url w, ''application/json'', data)]\<rparr>"]
  by (auto simp: send_def Let_def new_def split: prod.splits)

lemma Marshal_request0 [simp]:
  "Marshal (request0\<lparr>request.Channel := ch, request.ClientId := c\<rparr>)
     = Inr [request0\<lparr>request.Channel := ch, request.ClientId := c\<rparr>]"
  "Marshal (request0\<lparr>request.Channel := ch, request.ClientId := c, request.Subscription := p\<rparr>)
     = Inr [request0\<lparr>request.Channel := ch, request.ClientId := c, request.Subscription := p\<rparr>]"
  "Marshal (request0\<lparr>request.Channel := ch, request.Version := a, request.MinimumVersion := b, request.SupportedConnectionTypes := ts\<rparr>)
     = Inr [request0\<lparr>request.Channel := ch, request.Version := a, request.MinimumVersion := b, request.SupportedConnectionTypes := ts\<rparr>]"
  "Marshal (request0\<lparr>request.Channel := ch, request.ClientId := c, request.ConnectionType := t\<rparr>)
     = Inr [request0\<lparr>request.Channel := ch, request.ClientId := c, request.ConnectionType := t\<rparr>]"
  by (simp_all add: Marshal_def request0_def)

lemma send_fields:
  "subscriptions (snd (send E req w)) = subscriptions w"
  "tomb (snd (send E req w)) = tomb w"
  "connected (snd (send E req w)) = connected w"
  "clientId (snd (send E req w)) = clientId w"
  "url (snd (send E req w)) = url w"
  "http (snd (send E req w)) = http w"
  "outs (snd (send E req w)) = outs w"
  "closed_chans (snd (send E req w)) = closed_chans w"
  "logged (snd (send E req w)) = logged w"
  using send_frame [of E req w] by auto

lemma send_fields':
  assumes "send E req w = (r, w1)"
  shows "subscriptions w1 = subscriptions w" "tomb w1 = tomb w" "connected w1 = connected w"
    "clientId w1 = clientId w" "url w1 = url w" "http w1 = http w" "outs w1 = outs w"
    "closed_chans w1 = closed_chans w" "logged w1 = logged w"
  using send_fields [of E req w] assms by simp_all

lemma send_posts:
  "posts (snd (send E req w)) =
     (case Marshal req of Inl e \<Rightarrow> posts w
      | Inr data \<Rightarrow> posts w @ [(url w, ''application/json'', data)])"
proof (cases "Marshal req")
  case (Inl e)
  then show ?thesis by (simp add: send_def)
next
  case (Inr data)
  define w1 where "w1 = w\<lparr>posts := posts w @ [(url w, ''application/json'', data)]\<rparr>"
  show ?thesis
  proof (cases "\<exists>ms. http w1 (posts w1) = Response 200 (Envelopes ms)")
    case False
    then have "snd (send E req w) = w1"
      using Inr by (auto simp: send_def w1_def Let_def split: response.splits body.splits)
    then show ?thesis using Inr by (simp add: w1_def)
  next
    case True
    then obtain ms where ms: "http w1 (posts w1) = Response 200 (Envelopes ms)" by blast
    define w2 where "w2 = (if loopvar_per_iteration E then w1 else w1\<lparr>brk := Suc (brk w1)\<rparr>)"
    from range_messages_frame [of "loopvar_per_iteration E" "request.Channel req" "brk w1" ms None w2]
    obtain h b q where
      "snd (range_messages (loopvar_per_iteration E) (request.Channel req) (brk w1) ms None w2)
         = w2\<lparr>heap := h, brk := b, messages := q\<rparr>" by blast
    moreover have "snd (send E req w) =
        snd (range_messages (loopvar_per_iteration E) (request.Channel req) (brk w1) ms None w2)"
      using Inr ms
      by (simp add: send_def w1_def w2_def Let_def new_def split: prod.splits)
    ultimately show ?thesis using Inr by (simp add: w2_def w1_def)
  qed
qed

lemma send_error_if_not_accepted:
  assumes "Marshal req = Inr data"
    and "\<not> accepted (http w (posts w @ [(url w, ''application/json'', data)]))"
  shows "\<exists>err. send E req w = (Inl err, w\<lparr>posts := posts w @ [(url w, ''application/json'', data)]\<rparr>)"
  using assms
  by (auto simp: send_def accepted_def Let_def split: response.splits body.splits if_splits)

subsection \<open>The loop of send with one variable for each iteration\<close>

text \<open>
  When each iteration has its own \<^verbatim>\<open>msg\<close> (Go 1.22 and later), the pointers the loop
  keeps are to different variables, each holding its envelope: the queue receives
  the envelopes that are not on the request's channel, in the order of the batch, and
  the reply is the last envelope that is on it.
\<close>

lemma range_messages_per_iteration:
  assumes "range_messages True ch v ms reply w = (r, w')"
  shows "(\<forall>a<brk w. heap w' a = heap w a)
       \<and> brk w' = brk w + length ms
       \<and> (\<exists>new. messages w' = messages w @ new
              \<and> map (heap w') new = filter (\<lambda>m. Channel m \<noteq> ch) ms
              \<and> (\<forall>a\<in>set new. brk w \<le> a))
       \<and> (filter (\<lambda>m. Channel m = ch) ms = [] \<longrightarrow> r = reply)
       \<and> (filter (\<lambda>m. Channel m = ch) ms \<noteq> [] \<longrightarrow>
            (\<exists>a. r = Some a \<and> brk w \<le> a \<and> heap w' a = last (filter (\<lambda>m. Channel m = ch) ms)))"
  using assms
proof (induction ms arbitrary: v reply w)
  case Nil
  then show ?case by simp
next
  case (Cons m ms)
  define w1 where "w1 = w\<lparr>brk := Suc (brk w), heap := (heap w)(brk w := m)\<rparr>"
  define w2 where "w2 = (if ch = Channel m then w1 else w1\<lparr>messages := messages w1 @ [brk w]\<rparr>)"
  define r1 where "r1 = (if ch = Channel m then Some (brk w) else reply)"
  have step: "range_messages True ch v (m # ms) reply w = range_messages True ch (brk w) ms r1 w2"
    by (simp add: new_def Let_def w1_def w2_def r1_def del: fun_upd_apply)
  with Cons.prems have "range_messages True ch (brk w) ms r1 w2 = (r, w')" by simp
  note IH = Cons.IH [OF this]
  have b2: "brk w2 = Suc (brk w)" by (simp add: w2_def w1_def)
  have h2: "heap w2 = (heap w)(brk w := m)" by (simp add: w2_def w1_def)
  from IH b2 h2 have keep: "\<forall>a<Suc (brk w). heap w' a = ((heap w)(brk w := m)) a" by simp
  then have here: "heap w' (brk w) = m" by simp
  from keep have 1: "\<forall>a<brk w. heap w' a = heap w a" by simp
  from IH b2 have 2: "brk w' = brk w + length (m # ms)" by simp
  from IH b2 obtain new' where new':
    "messages w' = messages w2 @ new'"
    "map (heap w') new' = filter (\<lambda>m. Channel m \<noteq> ch) ms"
    "\<forall>a\<in>set new'. Suc (brk w) \<le> a" by auto
  have 3: "\<exists>new. messages w' = messages w @ new
              \<and> map (heap w') new = filter (\<lambda>m. Channel m \<noteq> ch) (m # ms)
              \<and> (\<forall>a\<in>set new. brk w \<le> a)"
  proof (cases "ch = Channel m")
    case True
    with new' have "messages w' = messages w @ new'"
      "map (heap w') new' = filter (\<lambda>m. Channel m \<noteq> ch) (m # ms)"
      "\<forall>a\<in>set new'. brk w \<le> a"
      by (auto simp: w2_def w1_def)
    then show ?thesis by blast
  next
    case False
    with new' here have "messages w' = messages w @ (brk w # new')"
      "map (heap w') (brk w # new') = filter (\<lambda>m. Channel m \<noteq> ch) (m # ms)"
      "\<forall>a\<in>set (brk w # new'). brk w \<le> a"
      by (auto simp: w2_def w1_def)
    then show ?thesis by blast
  qed
  have 4: "filter (\<lambda>m. Channel m = ch) (m # ms) = [] \<longrightarrow> r = reply"
    using IH by (auto simp: r1_def split: if_splits)
  have 5: "\<exists>a. r = Some a \<and> brk w \<le> a \<and> heap w' a = last (filter (\<lambda>m. Channel m = ch) (m # ms))"
    if ne: "filter (\<lambda>m. Channel m = ch) (m # ms) \<noteq> []"
  proof (cases "filter (\<lambda>m. Channel m = ch) ms = []")
    case True
    with ne have m: "Channel m = ch" by (auto split: if_splits)
    with True IH have "r = Some (brk w)" by (simp add: r1_def)
    with here m True show ?thesis by simp
  next
    case False
    with IH b2 obtain a where "r = Some a" "Suc (brk w) \<le> a"
      "heap w' a = last (filter (\<lambda>m. Channel m = ch) ms)" by auto
    with False show ?thesis by auto
  qed
  from 1 2 3 4 5 show ?case by blast
qed

lemma send_per_iteration:
  assumes "loopvar_per_iteration E"
    and "Marshal req = Inr data"
    and "http w (posts w @ [(url w, ''application/json'', data)]) = Response 200 (Envelopes ms)"
    and "send E req w = (res, w')"
  shows "take (length (messages w)) (messages w') = messages w
       \<and> map (heap w') (drop (length (messages w)) (messages w'))
           = filter (\<lambda>m. Channel m \<noteq> request.Channel req) ms
       \<and> (filter (\<lambda>m. Channel m = request.Channel req) ms = [] \<longrightarrow> res = Inr None)
       \<and> (filter (\<lambda>m. Channel m = request.Channel req) ms \<noteq> [] \<longrightarrow>
            (\<exists>a. res = Inr (Some a)
               \<and> heap w' a = last (filter (\<lambda>m. Channel m = request.Channel req) ms)))"
proof -
  let ?w1 = "w\<lparr>posts := posts w @ [(url w, ''application/json'', data)]\<rparr>"
  obtain r where r: "range_messages True (request.Channel req) (brk ?w1) ms None ?w1 = (r, w')"
    and res: "res = Inr r"
    using assms by (auto simp: send_def Let_def split: prod.splits)
  from range_messages_per_iteration [OF r]
  obtain new where "messages w' = messages w @ new"
    "map (heap w') new = filter (\<lambda>m. Channel m \<noteq> request.Channel req) ms"
    and "filter (\<lambda>m. Channel m = request.Channel req) ms = [] \<longrightarrow> r = None"
    and "filter (\<lambda>m. Channel m = request.Channel req) ms \<noteq> [] \<longrightarrow>
            (\<exists>a. r = Some a \<and> heap w' a = last (filter (\<lambda>m. Channel m = request.Channel req) ms))"
    by auto
  with res show ?thesis by auto
qed

text \<open>
  The batch of C1 again, with a variable for each iteration: the reply is the connect
  reply, and the queue holds the two pushed messages in their order.
\<close>

lemma connect_batch_per_iteration:
  "fst (connect (example_env True) (example_world (serve connect_batch))) = Inr (Some 0)
   \<and> heap (snd (connect (example_env True) (example_world (serve connect_batch)))) 0
       = reply_on ''/meta/connect'' True []
   \<and> map (heap (snd (connect (example_env True) (example_world (serve connect_batch)))))
         (messages (snd (connect (example_env True) (example_world (serve connect_batch)))))
       = [pushed ''/chat/a'' ''1'', pushed ''/chat/b'' ''2'']"
  by (simp add: connect_def eval_defs)

text \<open>
  Under either reading of the range statement: when the last envelope of the batch is
  on the request's channel, it is the reply that \<open>send\<close> returns.
\<close>

lemma last_filter_last:
  "xs \<noteq> [] \<Longrightarrow> P (last xs) \<Longrightarrow> last (filter P xs) = last xs"
proof (induction xs)
  case Nil
  then show ?case by simp
next
  case (Cons x xs)
  show ?case
  proof (cases "xs = []")
    case True
    with Cons.prems show ?thesis by simp
  next
    case False
    with Cons.prems have p: "P (last xs)" by simp
    with False have "last xs \<in> set (filter P xs)" by simp
    then have "filter P xs \<noteq> []" by (metis empty_iff empty_set)
    with Cons.IH [OF False p] False show ?thesis by simp
  qed
qed

lemma range_messages_last:
  assumes "ms \<noteq> []" and "Channel (last ms) = ch"
  shows "\<exists>a. fst (range_messages pi ch v ms reply w) = Some a
           \<and> heap (snd (range_messages pi ch v ms reply w)) a = last ms"
proof (cases pi)
  case False
  from assms have "list_ex (\<lambda>m. Channel m = ch) ms"
    by (auto simp: list_ex_iff intro: bexI [of _ "last ms"])
  with False range_messages_shared [OF assms(1), of ch v reply w] show ?thesis by simp
next
  case True
  obtain r w' where rw: "range_messages True ch v ms reply w = (r, w')"
    by (cases "range_messages True ch v ms reply w")
  from assms have l: "last (filter (\<lambda>m. Channel m = ch) ms) = last ms"
    by (simp add: last_filter_last)
  from assms have ne: "filter (\<lambda>m. Channel m = ch) ms \<noteq> []"
    by (auto simp: filter_empty_conv intro: bexI [of _ "last ms"])
  from range_messages_per_iteration [OF rw] ne l
  obtain a where "r = Some a" "heap w' a = last ms" by auto
  with True rw show ?thesis by simp
qed

lemma send_reply_last:
  assumes "Marshal req = Inr data"
    and "http w (posts w @ [(url w, ''application/json'', data)]) = Response 200 (Envelopes ms)"
    and "ms \<noteq> []" and "Channel (last ms) = request.Channel req"
  shows "\<exists>a w1. send E req w = (Inr (Some a), w1) \<and> heap w1 a = last ms"
proof -
  let ?w1 = "w\<lparr>posts := posts w @ [(url w, ''application/json'', data)]\<rparr>"
  let ?w2 = "(if loopvar_per_iteration E then ?w1 else ?w1\<lparr>brk := Suc (brk ?w1)\<rparr>)"
  let ?r = "range_messages (loopvar_per_iteration E) (request.Channel req) (brk w) ms None ?w2"
  have "send E req w = (Inr (fst ?r), snd ?r)"
    using assms(1,2) by (simp add: send_def Let_def new_def split: prod.splits)
  with range_messages_last [OF assms(3,4), of "loopvar_per_iteration E" "brk w" None ?w2]
  show ?thesis by auto
qed

subsection \<open>subscribe and Unsubscribe\<close>

lemma subscribe_success:
  assumes "subscribe E p outc ext w = (Return None, w')"
  shows "\<exists>g w1 rsp. Compile E p = Inr g
           \<and> send E (request0\<lparr> request.Channel := ''/meta/subscribe'',
                          request.ClientId := clientId w,
                          request.Subscription := p,
                          request.Extension := ext \<rparr>) w = (Inr (Some rsp), w1)
           \<and> Successful (heap w1 rsp)
           \<and> w' = w1\<lparr>subscriptions := (subscriptions w)
                          (String g \<mapsto> ISubscription \<lparr>glob = g, out = outc\<rparr>)\<rparr>"
proof -
  let ?req = "request0\<lparr> request.Channel := ''/meta/subscribe'',
                          request.ClientId := clientId w,
                          request.Subscription := p,
                          request.Extension := ext \<rparr>"
  obtain r w1 where s: "send E ?req w = (r, w1)" by (cases "send E ?req w")
  have "subscriptions w1 = subscriptions w" using send_fields' [OF s] by simp
  with assms s show ?thesis
    by (auto simp: subscribe_def split: sum.splits option.splits if_splits)
qed

lemma Unsubscribe_success:
  assumes "Unsubscribe E p w = (Return None, w')"
  shows "\<exists>w1. w' = w1\<lparr>subscriptions := (subscriptions w)(p \<mapsto> IString [])\<rparr>
           \<and> heap w1 = heap w' \<and> outs w1 = outs w \<and> closed_chans w1 = closed_chans w"
proof -
  let ?req = "request0\<lparr> request.Channel := ''/meta/unsubscribe'',
                     request.ClientId := clientId w,
                     request.Subscription := p \<rparr>"
  obtain r w1 where s: "send E ?req w = (r, w1)" by (cases "send E ?req w")
  have "subscriptions w1 = subscriptions w" "outs w1 = outs w" "closed_chans w1 = closed_chans w"
    using send_fields' [OF s] by simp_all
  with assms s show ?thesis
    by (auto simp: Unsubscribe_def doForgetSubscription_def
             split: sum.splits option.splits if_splits)
qed

text \<open>
  C5. When the compiler rejects the pattern, \<open>subscribe\<close> returns the error made from
  the compiler's message and the world is as it was before the call: nothing was
  posted (the list of posts is a field of the world) and the registry is unchanged.
  The same holds of \<open>SubscribeExt\<close> on a client that is connected; on one that is
  not, \<open>SubscribeExt\<close> does the handshake before \<open>subscribe\<close> sees the pattern.
\<close>

theorem subscribe_invalid_pattern:
  assumes "Compile E p = Inl e"
  shows "subscribe E p outc ext w = (Return (Some (InvalidPattern e)), w)
         \<and> (connected w \<longrightarrow>
              SubscribeExt E p outc ext w = (Return (Some (InvalidPattern e)), w))"
  using assms by (simp add: subscribe_def SubscribeExt_def ensureConnected_def)

text \<open>
  A pattern with a bracket, which the compiler of the examples rejects.
\<close>

theorem subscribe_invalid_pattern_witness:
  "Compile (example_env False) ''/foo/[a'' = Inl ''unexpected [''
   \<and> subscribe (example_env False) ''/foo/[a'' 1 INil (example_world obliging)
       = (Return (Some (InvalidPattern ''unexpected ['')), example_world obliging)
   \<and> posts (snd (subscribe (example_env False) ''/foo/[a'' 1 INil (example_world obliging))) = []
   \<and> SubscribeExt (example_env False) ''/foo/[a'' 1 INil (foo_world obliging)
       = (Return (Some (InvalidPattern ''unexpected ['')), foo_world obliging)"
proof -
  have h: "Compile (example_env False) ''/foo/[a'' = Inl ''unexpected [''"
    by (simp add: example_env_def example_Compile_def)
  have c: "connected (foo_world obliging)" by (simp add: foo_world_def)
  from subscribe_invalid_pattern [OF h, of 1 INil "example_world obliging"]
    subscribe_invalid_pattern [OF h, of 1 INil "foo_world obliging"] h c
  show ?thesis by (simp add: example_defs)
qed

text \<open>
  C4. Two calls of \<open>subscribe\<close> that both return nil, one after the other, for patterns
  whose compiled forms have the same \<open>String\<close>: the registry is then the registry
  before the first call with one entry stored under that string, the subscription of
  the second call (its matcher and its destination). The first call's subscription
  is gone, and the key is the only one the two calls added.
\<close>

theorem subscribe_last_destination_wins:
  assumes "subscribe E p1 out1 ext1 w0 = (Return None, w1)"
    and "subscribe E p2 out2 ext2 w1 = (Return None, w2)"
    and "Compile E p1 = Inr g1" and "Compile E p2 = Inr g2"
    and "String g1 = String g2"
  shows "subscriptions w2 =
           (subscriptions w0)(String g2 \<mapsto> ISubscription \<lparr>glob = g2, out = out2\<rparr>)
         \<and> dom (subscriptions w2) = insert (String g2) (dom (subscriptions w0))"
proof -
  from subscribe_success [OF assms(1)] assms(3)
  have 1: "subscriptions w1 =
      (subscriptions w0)(String g1 \<mapsto> ISubscription \<lparr>glob = g1, out = out1\<rparr>)"
    by auto
  from subscribe_success [OF assms(2)] assms(4)
  have 2: "subscriptions w2 =
      (subscriptions w1)(String g2 \<mapsto> ISubscription \<lparr>glob = g2, out = out2\<rparr>)"
    by auto
  from 1 2 assms(5) show ?thesis by simp
qed

text \<open>
  The pattern \<^verbatim>\<open>/foo/*\<close> registered twice, first for the channel 1, then for the channel 2:
  the registry has one entry, for the channel 2.
\<close>

theorem subscribe_last_destination_wins_witness:
  "fst (subscribe (example_env False) ''/foo/*'' 1 INil (example_world obliging)) = Return None
   \<and> fst (subscribe (example_env False) ''/foo/*'' 2 INil
           (snd (subscribe (example_env False) ''/foo/*'' 1 INil (example_world obliging))))
       = Return None
   \<and> subscriptions
        (snd (subscribe (example_env False) ''/foo/*'' 2 INil
           (snd (subscribe (example_env False) ''/foo/*'' 1 INil (example_world obliging)))))
       = [''/foo/*'' \<mapsto> ISubscription \<lparr>glob = example_glob ''/foo/*'', out = 2\<rparr>]
   \<and> dom (subscriptions
        (snd (subscribe (example_env False) ''/foo/*'' 2 INil
           (snd (subscribe (example_env False) ''/foo/*'' 1 INil (example_world obliging))))))
       = {''/foo/*''}"
proof -
  let ?E = "example_env False"
  let ?w0 = "example_world obliging"
  let ?w1 = "snd (subscribe ?E ''/foo/*'' 1 INil ?w0)"
  let ?w2 = "snd (subscribe ?E ''/foo/*'' 2 INil ?w1)"
  have c: "Compile ?E ''/foo/*'' = Inr (example_glob ''/foo/*'')"
    by (simp add: example_env_def example_Compile_def)
  have a: "fst (subscribe ?E ''/foo/*'' 1 INil ?w0) = Return None"
    by (simp add: subscribe_def eval_defs)
  have b: "fst (subscribe ?E ''/foo/*'' 2 INil ?w1) = Return None"
    by (simp add: subscribe_def eval_defs)
  have s0: "subscriptions ?w0 = Map.empty" by (simp add: example_defs)
  have 1: "subscribe ?E ''/foo/*'' 1 INil ?w0 = (Return None, ?w1)"
    using a by (simp add: prod_eq_iff)
  have 2: "subscribe ?E ''/foo/*'' 2 INil ?w1 = (Return None, ?w2)"
    using b by (simp add: prod_eq_iff)
  from subscribe_last_destination_wins [OF 1 2 c c] a b s0
  show ?thesis by (simp add: example_glob_def)
qed

text \<open>
  What \<open>Unsubscribe\<close> does with the reply that \<open>send\<close> hands to it: when that reply
  has \<^verbatim>\<open>successful\<close> false, \<open>Unsubscribe\<close> returns the error made from its \<^verbatim>\<open>error\<close>
  string, and the registry, the subscribers' channels and what was sent on them are
  as before the call. When the server answers the post with status 200 and a batch
  whose last envelope is the reply on \<^verbatim>\<open>/meta/unsubscribe\<close>, that envelope is the
  reply \<open>Unsubscribe\<close> reads, under either reading of the range statement.
\<close>

lemma Unsubscribe_failed_reply:
  "(send E (request0\<lparr> request.Channel := ''/meta/unsubscribe'',
                     request.ClientId := clientId w,
                     request.Subscription := pattern \<rparr>) w = (Inr (Some rsp), w1)
      \<and> \<not> Successful (heap w1 rsp) \<longrightarrow>
        Unsubscribe E pattern w = (Return (Some (ServerError (Error (heap w1 rsp)))), w1)
        \<and> subscriptions w1 = subscriptions w
        \<and> outs w1 = outs w \<and> closed_chans w1 = closed_chans w)
   \<and> ((\<forall>p. http w (posts w @ [p]) = Response 200 (Envelopes ms))
        \<and> ms \<noteq> [] \<and> Channel (last ms) = ''/meta/unsubscribe'' \<and> \<not> Successful (last ms) \<longrightarrow>
        fst (Unsubscribe E pattern w) = Return (Some (ServerError (Error (last ms))))
        \<and> subscriptions (snd (Unsubscribe E pattern w)) = subscriptions w)"
proof -
  let ?req = "request0\<lparr> request.Channel := ''/meta/unsubscribe'',
                     request.ClientId := clientId w,
                     request.Subscription := pattern \<rparr>"
  have A: "Unsubscribe E pattern w = (Return (Some (ServerError (Error (heap w1 rsp)))), w1)
        \<and> subscriptions w1 = subscriptions w
        \<and> outs w1 = outs w \<and> closed_chans w1 = closed_chans w"
    if s: "send E ?req w = (Inr (Some rsp), w1)" and f: "\<not> Successful (heap w1 rsp)"
    for rsp w1
    using s f send_fields' [OF s] by (simp add: Unsubscribe_def)
  have B: "fst (Unsubscribe E pattern w) = Return (Some (ServerError (Error (last ms))))
        \<and> subscriptions (snd (Unsubscribe E pattern w)) = subscriptions w"
    if h: "\<forall>p. http w (posts w @ [p]) = Response 200 (Envelopes ms)"
      and ne: "ms \<noteq> []" and ch: "Channel (last ms) = ''/meta/unsubscribe''"
      and f: "\<not> Successful (last ms)"
  proof -
    have m: "Marshal ?req = Inr [?req]" by simp
    from h have r: "http w (posts w @ [(url w, ''application/json'', [?req])])
        = Response 200 (Envelopes ms)" by blast
    from send_reply_last [OF m r ne, of E] ch
    obtain a w1 where s: "send E ?req w = (Inr (Some a), w1)" and l: "heap w1 a = last ms"
      by auto
    from A [OF s] f l show ?thesis by simp
  qed
  from A B show ?thesis by blast
qed

text \<open>
  The server answers the unsubscribe request with \<^verbatim>\<open>successful\<close> false and the error
  \<^verbatim>\<open>Unknown client\<close>: the subscription stays in the registry.
\<close>

lemma Unsubscribe_failed_reply_example:
  "Unsubscribe (example_env False) ''/foo/*''
     (foo_world (serve [reply_on ''/meta/unsubscribe'' False ''Unknown client'']))
   = (Return (Some (ServerError ''Unknown client'')),
      snd (Unsubscribe (example_env False) ''/foo/*''
        (foo_world (serve [reply_on ''/meta/unsubscribe'' False ''Unknown client'']))))
   \<and> subscriptions (snd (Unsubscribe (example_env False) ''/foo/*''
        (foo_world (serve [reply_on ''/meta/unsubscribe'' False ''Unknown client'']))))
      = [''/foo/*'' \<mapsto> ISubscription \<lparr>glob = example_glob ''/foo/*'', out = 1\<rparr>]"
proof -
  let ?E = "example_env False"
  let ?w = "foo_world (serve [reply_on ''/meta/unsubscribe'' False ''Unknown client''])"
  let ?req = "request0\<lparr> request.Channel := ''/meta/unsubscribe'',
                     request.ClientId := clientId ?w,
                     request.Subscription := ''/foo/*'' \<rparr>"
  let ?w1 = "snd (send ?E ?req ?w)"
  have s: "send ?E ?req ?w = (Inr (Some 1), ?w1)"
    by (simp add: prod_eq_iff eval_defs)
  have h: "heap ?w1 1 = reply_on ''/meta/unsubscribe'' False ''Unknown client''"
    by (simp add: eval_defs)
  have f: "\<not> Successful (heap ?w1 1)" unfolding h by (simp add: reply_on_def)
  have e: "Error (heap ?w1 1) = ''Unknown client''" unfolding h by (simp add: reply_on_def)
  have r: "subscriptions ?w
      = [''/foo/*'' \<mapsto> ISubscription \<lparr>glob = example_glob ''/foo/*'', out = 1\<rparr>]"
    by (simp add: foo_world_def)
  from Unsubscribe_failed_reply [of ?E "''/foo/*''" ?w 1 ?w1] s f e r
  show ?thesis by simp
qed

text \<open>
  C6. The claim: when the server's reply to the unsubscribe request has
  \<^verbatim>\<open>successful\<close> false and the error string \<open>e\<close>, \<open>Unsubscribe\<close> returns an error that
  carries \<open>e\<close> and the registry is as before. What the code does when the package is
  built with one loop variable per range statement (every Go version before 1.22):
  on a status 200 and a batch that holds an envelope on \<^verbatim>\<open>/meta/unsubscribe\<close>,
  \<open>Unsubscribe\<close> reads \<^verbatim>\<open>successful\<close> and \<^verbatim>\<open>error\<close> from the last envelope of the
  batch, whichever envelope the reply is. When the last envelope is not the reply,
  the error returned is made from that envelope's \<^verbatim>\<open>error\<close> string, and when that
  envelope has \<^verbatim>\<open>successful\<close> true, \<open>Unsubscribe\<close> returns nil and overwrites the
  entry of the registry.
\<close>

theorem Unsubscribe_reads_last_envelope:
  assumes "\<not> loopvar_per_iteration E"
    and "\<forall>p. http w (posts w @ [p]) = Response 200 (Envelopes ms)"
    and "list_ex (\<lambda>m. Channel m = ''/meta/unsubscribe'') ms"
  shows "fst (Unsubscribe E pattern w) =
           (if Successful (last ms) then Return None
            else Return (Some (ServerError (Error (last ms)))))
         \<and> subscriptions (snd (Unsubscribe E pattern w)) =
           (if Successful (last ms) then (subscriptions w)(pattern \<mapsto> IString [])
            else subscriptions w)"
proof -
  let ?req = "request0\<lparr> request.Channel := ''/meta/unsubscribe'',
                     request.ClientId := clientId w,
                     request.Subscription := pattern \<rparr>"
  let ?w1 = "w\<lparr>posts := posts w @ [(url w, ''application/json'', [?req])],
              brk := Suc (brk w),
              heap := (heap w)(brk w := last ms),
              messages := messages w @
                replicate (length (filter (\<lambda>m. Channel m \<noteq> ''/meta/unsubscribe'') ms)) (brk w)\<rparr>"
  from assms(3) have ne: "ms \<noteq> []" by auto
  from assms(2) have r: "http w (posts w @ [(url w, ''application/json'', [?req])])
      = Response 200 (Envelopes ms)" by blast
  have "send E ?req w = (Inr (Some (brk w)), ?w1)"
    using assms(1,3) r ne
    by (simp add: send_def new_def Let_def range_messages_shared)
  then show ?thesis
    by (simp add: Unsubscribe_def doForgetSubscription_def)
qed

text \<open>
  The server refuses the unsubscribe request with \<^verbatim>\<open>Unknown client\<close>. With a pushed
  message after the reply, the error returned is empty; with an envelope after it
  that has \<^verbatim>\<open>successful\<close> true, \<open>Unsubscribe\<close> returns nil and the subscription is
  overwritten.
\<close>

theorem Unsubscribe_reads_last_envelope_witness:
  "fst (Unsubscribe (example_env False) ''/foo/*''
         (foo_world (serve [reply_on ''/meta/unsubscribe'' False ''Unknown client'',
                            pushed ''/chat/a'' ''1''])))
     = Return (Some (ServerError []))
   \<and> fst (Unsubscribe (example_env False) ''/foo/*''
         (foo_world (serve [reply_on ''/meta/unsubscribe'' False ''Unknown client'',
                            reply_on ''/meta/connect'' True []])))
     = Return None
   \<and> subscriptions (snd (Unsubscribe (example_env False) ''/foo/*''
         (foo_world (serve [reply_on ''/meta/unsubscribe'' False ''Unknown client'',
                            reply_on ''/meta/connect'' True []])))) ''/foo/*''
     = Some (IString [])"
proof -
  let ?E = "example_env False"
  let ?a = "[reply_on ''/meta/unsubscribe'' False ''Unknown client'', pushed ''/chat/a'' ''1'']"
  let ?b = "[reply_on ''/meta/unsubscribe'' False ''Unknown client'',
             reply_on ''/meta/connect'' True []]"
  have e: "\<not> loopvar_per_iteration ?E" by (simp add: example_env_def)
  have ha: "\<forall>p. http (foo_world (serve ?a)) (posts (foo_world (serve ?a)) @ [p])
      = Response 200 (Envelopes ?a)"
    by (simp add: example_defs more_example_defs)
  have hb: "\<forall>p. http (foo_world (serve ?b)) (posts (foo_world (serve ?b)) @ [p])
      = Response 200 (Envelopes ?b)"
    by (simp add: example_defs more_example_defs)
  have la: "list_ex (\<lambda>m. Channel m = ''/meta/unsubscribe'') ?a"
    by (simp add: reply_on_def)
  have lb: "list_ex (\<lambda>m. Channel m = ''/meta/unsubscribe'') ?b"
    by (simp add: reply_on_def)
  from Unsubscribe_reads_last_envelope [OF e ha la, of "''/foo/*''"]
    Unsubscribe_reads_last_envelope [OF e hb lb, of "''/foo/*''"]
  show ?thesis by (simp add: reply_on_def pushed_def metaMessage0_def)
qed

subsection \<open>The fan-out of the worker\<close>

lemma deliver_frame:
  "deliver ks msg w = (r, w') \<Longrightarrow> \<exists>o'. w' = w\<lparr>outs := o'\<rparr>"
proof (induction ks arbitrary: w)
  case Nil
  then have "w' = w\<lparr>outs := outs w\<rparr>" by simp
  then show ?case by blast
next
  case (Cons k ks)
  show ?case
  proof (cases "\<exists>s. subscriptions w k = Some (ISubscription s)
                    \<and> MatchString (glob s) (Channel (heap w msg))")
    case False
    then have "deliver (k # ks) msg w = deliver ks msg w"
      by (auto split: option.splits entry.splits)
    with Cons show ?thesis by simp
  next
    case True
    then obtain s where s: "subscriptions w k = Some (ISubscription s)"
      "MatchString (glob s) (Channel (heap w msg))" by blast
    show ?thesis
    proof (cases "out s \<in> closed_chans w")
      case True
      with s Cons.prems have "w' = w\<lparr>outs := outs w\<rparr>" by simp
      then show ?thesis by blast
    next
      case False
      with s Cons.prems have
        d: "deliver ks msg (w\<lparr>outs := (outs w)(out s := outs w (out s) @ [msg])\<rparr>) = (r, w')"
        by simp
      from Cons.IH [OF d] obtain o'
        where "w' = w\<lparr>outs := (outs w)(out s := outs w (out s) @ [msg])\<rparr>\<lparr>outs := o'\<rparr>"
        by blast
      then have "w' = w\<lparr>outs := o'\<rparr>" by simp
      then show ?thesis by blast
    qed
  qed
qed

lemma routes_outs [simp]: "routes (w\<lparr>outs := o'\<rparr>) msg d k = routes w msg d k"
  by (simp add: routes_def split: option.splits entry.splits)

lemma deliver_outs:
  "deliver ks msg w = (Return (), w') \<Longrightarrow>
     outs w' d = outs w d @ replicate (length (filter (routes w msg d) ks)) msg"
proof (induction ks arbitrary: w)
  case Nil
  then show ?case by simp
next
  case (Cons k ks)
  show ?case
  proof (cases "\<exists>s. subscriptions w k = Some (ISubscription s)
                    \<and> MatchString (glob s) (Channel (heap w msg))")
    case False
    then have "deliver (k # ks) msg w = deliver ks msg w" and "\<not> routes w msg d k"
      by (auto simp: routes_def split: option.splits entry.splits)
    with Cons show ?thesis by simp
  next
    case True
    then obtain s where s: "subscriptions w k = Some (ISubscription s)"
      "MatchString (glob s) (Channel (heap w msg))" by blast
    let ?w = "w\<lparr>outs := (outs w)(out s := outs w (out s) @ [msg])\<rparr>"
    from s Cons.prems have d: "deliver ks msg ?w = (Return (), w')"
      by (simp split: if_splits)
    have r: "routes w msg d k \<longleftrightarrow> out s = d" using s by (simp add: routes_def)
    from Cons.IH [OF d]
    have "outs w' d = outs ?w d @ replicate (length (filter (routes w msg d) ks)) msg"
      by simp
    then show ?thesis using r by (auto simp: replicate_app_Cons_same)
  qed
qed

lemma deliver_returns:
  assumes "\<forall>k\<in>set ks. \<forall>s. subscriptions w k = Some (ISubscription s) \<longrightarrow>
             MatchString (glob s) (Channel (heap w msg)) \<longrightarrow> out s \<notin> closed_chans w"
  shows "\<exists>w'. deliver ks msg w = (Return (), w')"
  using assms
proof (induction ks arbitrary: w)
  case Nil
  show ?case by simp
next
  case (Cons k ks)
  show ?case
  proof (cases "\<exists>s. subscriptions w k = Some (ISubscription s)
                    \<and> MatchString (glob s) (Channel (heap w msg))")
    case False
    then have "deliver (k # ks) msg w = deliver ks msg w"
      by (auto split: option.splits entry.splits)
    with Cons show ?thesis by simp
  next
    case True
    then obtain s where s: "subscriptions w k = Some (ISubscription s)"
      "MatchString (glob s) (Channel (heap w msg))" by blast
    let ?w = "w\<lparr>outs := (outs w)(out s := outs w (out s) @ [msg])\<rparr>"
    from s Cons.prems have op: "out s \<notin> closed_chans w" by simp
    have "\<exists>w'. deliver ks msg ?w = (Return (), w')"
      by (rule Cons.IH) (use Cons.prems in simp)
    with s op show ?thesis by simp
  qed
qed

lemma deliver_skip:
  assumes "\<forall>s. subscriptions w p \<noteq> Some (ISubscription s)"
  shows "deliver ks msg w = deliver (filter (\<lambda>k. k \<noteq> p) ks) msg w"
  using assms
proof (induction ks arbitrary: w)
  case Nil
  show ?case by simp
next
  case (Cons k ks)
  show ?case
  proof (cases "k = p")
    case True
    with Cons.prems have "deliver (k # ks) msg w = deliver ks msg w"
      by (auto split: option.splits entry.splits)
    with True Cons show ?thesis by simp
  next
    case False
    have "\<And>o'. deliver ks msg (w\<lparr>outs := o'\<rparr>)
              = deliver (filter (\<lambda>k. k \<noteq> p) ks) msg (w\<lparr>outs := o'\<rparr>)"
      by (rule Cons.IH) (use Cons.prems in simp)
    with False Cons show ?thesis
      by (simp split: option.splits entry.splits)
  qed
qed

lemma routes_count:
  assumes "distinct ks" and "set ks = dom (subscriptions w)"
  shows "length (filter (routes w msg d) ks) = card {k. routes w msg d k}"
proof -
  have "{k. routes w msg d k} \<subseteq> dom (subscriptions w)"
    by (auto simp: routes_def split: option.splits)
  then have "{k. routes w msg d k} \<inter> set ks = {k. routes w msg d k}"
    using assms(2) by blast
  with distinct_length_filter [OF assms(1), of "routes w msg d"] show ?thesis by simp
qed

text \<open>
  C2. The worker takes the message at the head of the queue when every key of the
  registry is met once by the range (\<open>ks\<close>) and no subscription that matches has a
  closed destination. It stays running, and every destination \<open>d\<close> has then received
  the message once for each subscription in the registry that matches the message's
  channel and has \<open>d\<close> as its destination, and nothing else. So the destination of
  every subscription that matches has received it, and a destination none of whose
  subscriptions matches has received nothing.
\<close>

theorem worker_delivers_to_matching_subscriptions:
  assumes "tomb w = Some t" and "messages w = msg # q"
    and "distinct ks" and "set ks = dom (subscriptions w)"
    and "\<forall>k s. subscriptions w k = Some (ISubscription s) \<longrightarrow>
           MatchString (glob s) (Channel (heap w msg)) \<longrightarrow> out s \<notin> closed_chans w"
  shows "\<exists>w'. worker E [Message_ready ks] w = (Running, w')
           \<and> messages w' = q
           \<and> (\<forall>d. outs w' d = outs w d @ replicate (card {k. routes w msg d k}) msg)
           \<and> (\<forall>k s. subscriptions w k = Some (ISubscription s) \<longrightarrow>
                 MatchString (glob s) (Channel (heap w msg)) \<longrightarrow>
                 msg \<in> set (drop (length (outs w (out s))) (outs w' (out s))))
           \<and> (\<forall>d. (\<forall>k s. subscriptions w k = Some (ISubscription s) \<longrightarrow> out s = d \<longrightarrow>
                       \<not> MatchString (glob s) (Channel (heap w msg)))
                 \<longrightarrow> outs w' d = outs w d)"
proof -
  let ?w = "w\<lparr>messages := q\<rparr>"
  from assms(5) have "\<exists>w'. deliver ks msg ?w = (Return (), w')"
    by (intro deliver_returns) simp
  then obtain w' where d: "deliver ks msg ?w = (Return (), w')" by blast
  from deliver_frame [OF d] obtain o' where w': "w' = ?w\<lparr>outs := o'\<rparr>" by blast
  have rw: "\<And>d. routes ?w msg d = routes w msg d"
    by (rule ext) (simp add: routes_def split: option.splits entry.splits)
  have cnt: "\<And>d. length (filter (routes ?w msg d) ks) = card {k. routes w msg d k}"
    using routes_count [of ks w msg] assms(3,4) by (simp add: rw)
  have outs: "\<And>d. outs w' d = outs w d @ replicate (card {k. routes w msg d k}) msg"
    using deliver_outs [OF d] cnt by simp
  have fin: "\<And>d. finite {k. routes w msg d k}"
  proof -
    fix d
    have "{k. routes w msg d k} \<subseteq> set ks"
      using assms(4) by (auto simp: routes_def split: option.splits)
    then show "finite {k. routes w msg d k}" by (rule finite_subset) simp
  qed
  have pos: "msg \<in> set (drop (length (outs w (out s))) (outs w' (out s)))"
    if "subscriptions w k = Some (ISubscription s)"
      and "MatchString (glob s) (Channel (heap w msg))" for k s
  proof -
    from that have "k \<in> {k. routes w msg (out s) k}" by (simp add: routes_def)
    with fin [of "out s"] have "card {k. routes w msg (out s) k} \<noteq> 0" by auto
    then show ?thesis using outs [of "out s"] by simp
  qed
  have zero: "outs w' d = outs w d"
    if "\<forall>k s. subscriptions w k = Some (ISubscription s) \<longrightarrow> out s = d \<longrightarrow>
                       \<not> MatchString (glob s) (Channel (heap w msg))" for d
  proof -
    from that have "{k. routes w msg d k} = {}"
      by (auto simp: routes_def split: option.splits entry.splits)
    then show ?thesis using outs [of d] by simp
  qed
  have "worker E [Message_ready ks] w = (Running, w')"
    using assms(1,2) d by simp
  moreover have "messages w' = q" using w' by simp
  ultimately show ?thesis using outs pos zero by blast
qed

text \<open>
  A message for \<^verbatim>\<open>/chat/a\<close> goes to the channel 1 of \<^verbatim>\<open>/chat/*\<close> and not to the
  channel 2 of \<^verbatim>\<open>/news/*\<close>.
\<close>

theorem worker_delivers_to_matching_subscriptions_witness:
  "fst (worker (example_env False) [Message_ready [''/news/*'', ''/old'', ''/chat/*'']] chat_world)
     = Running
   \<and> messages (snd (worker (example_env False)
         [Message_ready [''/news/*'', ''/old'', ''/chat/*'']] chat_world)) = []
   \<and> outs (snd (worker (example_env False)
         [Message_ready [''/news/*'', ''/old'', ''/chat/*'']] chat_world)) 1 = [0]
   \<and> outs (snd (worker (example_env False)
         [Message_ready [''/news/*'', ''/old'', ''/chat/*'']] chat_world)) 2 = []"
proof -
  let ?E = "example_env False"
  let ?ks = "[''/news/*'', ''/old'', ''/chat/*'']"
  have t: "tomb chat_world = Some \<lparr>reason = None\<rparr>" by (simp add: chat_world_def)
  have q: "messages chat_world = 0 # []" by (simp add: chat_world_def)
  have d: "distinct ?ks" by simp
  have k: "set ?ks = dom (subscriptions chat_world)" by (auto simp: chat_world_def)
  have c: "\<forall>k s. subscriptions chat_world k = Some (ISubscription s) \<longrightarrow>
           MatchString (glob s) (Channel (heap chat_world 0)) \<longrightarrow> out s \<notin> closed_chans chat_world"
    by (simp add: chat_world_def example_defs)
  have o: "outs chat_world = (\<lambda>d. [])" by (simp add: chat_world_def example_defs)
  have r1: "{k. routes chat_world 0 1 k} = {''/chat/*''}"
    by (auto simp: routes_def chat_world_def example_glob_def pushed_def metaMessage0_def
             split: if_splits)
  have r2: "{k. routes chat_world 0 2 k} = {}"
    by (auto simp: routes_def chat_world_def example_glob_def pushed_def metaMessage0_def
             split: if_splits)
  from worker_delivers_to_matching_subscriptions [OF t q d k c, of ?E]
  obtain w' where w': "worker ?E [Message_ready ?ks] chat_world = (Running, w')"
    "messages w' = []"
    "\<forall>d. outs w' d = outs chat_world d @ replicate (card {k. routes chat_world 0 d k}) 0"
    by blast
  from w'(3) have "outs w' 1 = outs chat_world 1 @ replicate (card {k. routes chat_world 0 1 k}) 0"
    by blast
  then have o1: "outs w' 1 = [0]" unfolding r1 o by simp
  from w'(3) have "outs w' 2 = outs chat_world 2 @ replicate (card {k. routes chat_world 0 2 k}) 0"
    by blast
  then have o2: "outs w' 2 = []" unfolding r2 o by simp
  from w'(1,2) o1 o2 show ?thesis by simp
qed

text \<open>
  C3, as amended. For a subscription stored in the registry under the key \<open>p\<close>: after
  \<open>Unsubscribe p\<close> has returned nil, the entry under \<open>p\<close> is no longer a subscription
  (the key stays and holds the empty string), all other entries are as before, and
  the fan-out of any message is what it would be if the range never met the key \<open>p\<close>.
  The destination of the subscription that was stored under \<open>p\<close> receives a later
  message only through another entry of the registry with the same destination.
\<close>

theorem Unsubscribe_forgets_subscription:
  assumes "subscriptions w p = Some (ISubscription s)"
    and "Unsubscribe E p w = (Return None, w')"
  shows "subscriptions w' = (subscriptions w)(p \<mapsto> IString [])
         \<and> (\<forall>ks msg. deliver ks msg w' = deliver (filter (\<lambda>k. k \<noteq> p) ks) msg w')
         \<and> (\<forall>ks msg w''. deliver ks msg w' = (Return (), w'') \<longrightarrow>
               (\<forall>k s'. k \<noteq> p \<longrightarrow> subscriptions w k = Some (ISubscription s') \<longrightarrow>
                  out s' = out s \<longrightarrow> \<not> MatchString (glob s') (Channel (heap w' msg)))
               \<longrightarrow> outs w'' (out s) = outs w' (out s))"
proof -
  from Unsubscribe_success [OF assms(2)]
  have subs: "subscriptions w' = (subscriptions w)(p \<mapsto> IString [])" by auto
  then have forgotten: "\<forall>s. subscriptions w' p \<noteq> Some (ISubscription s)" by simp
  have skip: "\<And>ks msg. deliver ks msg w' = deliver (filter (\<lambda>k. k \<noteq> p) ks) msg w'"
    using deliver_skip [OF forgotten] .
  have quiet: "outs w'' (out s) = outs w' (out s)"
    if d: "deliver ks msg w' = (Return (), w'')"
      and other: "\<forall>k s'. k \<noteq> p \<longrightarrow> subscriptions w k = Some (ISubscription s') \<longrightarrow>
                  out s' = out s \<longrightarrow> \<not> MatchString (glob s') (Channel (heap w' msg))"
    for ks msg w''
  proof -
    have "\<not> routes w' msg (out s) k" for k
      using other subs by (cases "k = p") (auto simp: routes_def split: option.splits entry.splits)
    then have "filter (routes w' msg (out s)) ks = []" by simp
    with deliver_outs [OF d, of "out s"] show ?thesis by simp
  qed
  from subs skip quiet show ?thesis by blast
qed

text \<open>
  Before \<open>Unsubscribe\<close> the message for \<^verbatim>\<open>/foo/bar\<close> goes to the channel 1; after it, the
  same message, which still matches the pattern, goes nowhere.
\<close>

theorem Unsubscribe_forgets_subscription_witness:
  "fst (Unsubscribe (example_env False) ''/foo/*'' (foo_world obliging)) = Return None
   \<and> subscriptions (snd (Unsubscribe (example_env False) ''/foo/*'' (foo_world obliging)))
        ''/foo/*'' = Some (IString [])
   \<and> MatchString (example_glob ''/foo/*'')
        (Channel (heap (snd (Unsubscribe (example_env False) ''/foo/*'' (foo_world obliging))) 0))
   \<and> outs (snd (deliver [''/foo/*''] 0 (foo_world obliging))) 1 = [0]
   \<and> outs (snd (deliver [''/foo/*''] 0
           (snd (Unsubscribe (example_env False) ''/foo/*'' (foo_world obliging))))) 1 = []"
proof -
  let ?E = "example_env False"
  let ?w = "foo_world obliging"
  let ?w' = "snd (Unsubscribe ?E ''/foo/*'' ?w)"
  have r: "subscriptions ?w ''/foo/*''
      = Some (ISubscription \<lparr>glob = example_glob ''/foo/*'', out = 1\<rparr>)"
    by (simp add: foo_world_def)
  have a: "fst (Unsubscribe ?E ''/foo/*'' ?w) = Return None"
    by (simp add: Unsubscribe_def doForgetSubscription_def eval_defs)
  then have u: "Unsubscribe ?E ''/foo/*'' ?w = (Return None, ?w')"
    by (simp add: prod_eq_iff)
  have h0: "heap ?w' 0 = pushed ''/foo/bar'' ''x''"
    by (simp add: Unsubscribe_def doForgetSubscription_def eval_defs)
  have m: "MatchString (example_glob ''/foo/*'') (Channel (heap ?w' 0))"
    unfolding h0 by (simp add: example_glob_def pushed_def)
  have o: "outs ?w' 1 = []"
    by (simp add: Unsubscribe_def doForgetSubscription_def eval_defs)
  have before: "outs (snd (deliver [''/foo/*''] 0 ?w)) 1 = [0]"
    by (simp add: eval_defs)
  note t = Unsubscribe_forgets_subscription [OF r u]
  from t have s: "subscriptions ?w' = (subscriptions ?w)(''/foo/*'' \<mapsto> IString [])" by blast
  from t have sk: "deliver [''/foo/*''] 0 ?w' = deliver (filter (\<lambda>k. k \<noteq> ''/foo/*'') [''/foo/*'']) 0 ?w'"
    by blast
  then have "deliver [''/foo/*''] 0 ?w' = (Return (), ?w')" by simp
  with a s m o before show ?thesis by simp
qed

text \<open>
  C3 as the claim has it fails. With a compiler that trims the pattern, the
  subscription for the pattern \<^verbatim>\<open>/foo/*\<close> written with a blank before it is stored
  under the pattern without the blank; \<open>Unsubscribe\<close> of the same pattern returns nil
  and writes under the pattern with the blank, so the subscription is still in the
  registry and still receives the message for \<^verbatim>\<open>/foo/bar\<close>. And with any compiler
  the key is not removed from the map: it stays, holding the empty string.
\<close>

theorem Unsubscribe_other_key_counterexample:
  "fst (subscribe trimming_env '' /foo/*'' 1 INil bare_world) = Return None
   \<and> fst (Unsubscribe trimming_env '' /foo/*''
           (snd (subscribe trimming_env '' /foo/*'' 1 INil bare_world))) = Return None
   \<and> subscriptions
        (snd (Unsubscribe trimming_env '' /foo/*''
           (snd (subscribe trimming_env '' /foo/*'' 1 INil bare_world)))) ''/foo/*''
       = Some (ISubscription \<lparr>glob = example_glob ''/foo/*'', out = 1\<rparr>)
   \<and> outs (snd (deliver [''/foo/*'', '' /foo/*''] 0
         (snd (Unsubscribe trimming_env '' /foo/*''
           (snd (subscribe trimming_env '' /foo/*'' 1 INil bare_world)))))) 1 = [0]
   \<and> ''/foo/*'' \<in> dom (subscriptions
         (snd (Unsubscribe (example_env False) ''/foo/*'' (foo_world obliging))))"
  by (simp add: subscribe_def Unsubscribe_def doForgetSubscription_def eval_defs trimming_defs)

text \<open>
  \<open>subscribe\<close> files a subscription under the \<open>String\<close> of the compiled pattern, and
  \<open>Unsubscribe\<close> overwrites the entry under the pattern it is given: the two are
  the same entry when \<open>String\<close> gives back the pattern that was compiled.
\<close>

lemma subscribe_then_Unsubscribe:
  assumes "subscribe E p outc ext w0 = (Return None, w1)"
    and "Compile E p = Inr g"
    and "Unsubscribe E p w1 = (Return None, w2)"
  shows "subscriptions w2 (String g) =
           (if String g = p then Some (IString [])
            else Some (ISubscription \<lparr>glob = g, out = outc\<rparr>))"
proof -
  from subscribe_success [OF assms(1)] assms(2)
  have "subscriptions w1 (String g) = Some (ISubscription \<lparr>glob = g, out = outc\<rparr>)" by auto
  moreover from Unsubscribe_success [OF assms(3)]
  have "subscriptions w2 = (subscriptions w1)(p \<mapsto> IString [])" by auto
  ultimately show ?thesis by simp
qed

subsection \<open>The errors of send\<close>

text \<open>
  C7, as amended. \<open>send\<close> returns an error exactly when the request cannot be encoded
  (its \<^verbatim>\<open>ext\<close> is a value \<^verbatim>\<open>json.Marshal\<close> rejects), or the response is not accepted:
  the post itself failed, or the status is not 200, or the body could not be read,
  or it could not be decoded. On a status 200 with a body that decodes it returns no
  error. A status in 201 to 299 is an error like any other status that is not 200.
\<close>

theorem send_error_iff:
  "(\<exists>err. fst (send E req w) = Inl err) \<longleftrightarrow>
     (\<exists>e. request.Extension req = Unencodable e)
     \<or> \<not> accepted (http w (posts w @ [(url w, ''application/json'', [req])]))"
proof (cases "\<exists>e. request.Extension req = Unencodable e")
  case True
  then show ?thesis by (auto simp: send_def Marshal_def)
next
  case False
  then have m: "Marshal req = Inr [req]"
    by (cases "request.Extension req") (simp_all add: Marshal_def)
  show ?thesis
  proof (cases "accepted (http w (posts w @ [(url w, ''application/json'', [req])]))")
    case True
    then obtain ms where
      "http w (posts w @ [(url w, ''application/json'', [req])]) = Response 200 (Envelopes ms)"
      by (auto simp: accepted_def split: response.splits body.splits if_splits)
    from send_reply_nil(2) [OF m this, of E] True False show ?thesis by auto
  next
    case na: False
    from send_error_if_not_accepted [OF m na, of E] False na show ?thesis by auto
  qed
qed

text \<open>
  A status 503, a body that does not decode, and a response that is accepted.
\<close>

theorem send_error_iff_witness:
  "fst (connect (example_env False) (example_world (answering 503 (Envelopes []))))
     = Inl (HTTPStatus 503)
   \<and> fst (connect (example_env False) (example_world (answering 200 (Malformed ''EOF''))))
     = Inl (UnmarshalError ''EOF'')
   \<and> fst (connect (example_env False) (example_world obliging)) = Inr (Some 0)"
  using send_error_iff [of "example_env False"
      "request0\<lparr>request.Channel := ''/meta/connect'', request.ClientId := [],
                  request.ConnectionType := ''long-polling''\<rparr>"
      "example_world obliging"]
  by (simp add: connect_def eval_defs)

text \<open>
  C7 as the claim has it fails on a status 204 with a body that decodes: 204 is a
  success status, and \<open>send\<close> returns the error for the status.
\<close>

theorem send_status_204_counterexample:
  "spec_success_status 204
   \<and> fst (connect (example_env False)
            (example_world (answering 204 (Envelopes [reply_on ''/meta/connect'' True []]))))
       = Inl (HTTPStatus 204)"
  by (simp add: spec_success_status_def connect_def eval_defs)

subsection \<open>Nil replies\<close>

lemma ops_panic:
  assumes "\<And>p. http w (posts w @ [p]) = Response 200 (Envelopes ms)"
  shows "fst (handshake E w) = Panic \<longleftrightarrow> \<not> list_ex (\<lambda>m. Channel m = ''/meta/handshake'') ms"
    and "fst (disconnect E w) = Panic \<longleftrightarrow> \<not> list_ex (\<lambda>m. Channel m = ''/meta/disconnect'') ms"
    and "fst (Unsubscribe E p w) = Panic \<longleftrightarrow> \<not> list_ex (\<lambda>m. Channel m = ''/meta/unsubscribe'') ms"
proof -
  let ?h = "request0\<lparr> request.Channel := ''/meta/handshake'',
                     request.Version := VERSION,
                     request.MinimumVersion := MINIMUM_VERSION,
                     request.SupportedConnectionTypes := [''long-polling''] \<rparr>"
  from send_reply_nil [of ?h "[?h]" w ms E] assms
  have "fst (send E ?h w) = Inr None \<longleftrightarrow> \<not> list_ex (\<lambda>m. Channel m = ''/meta/handshake'') ms"
    and "\<exists>reply. fst (send E ?h w) = Inr reply"
    by simp_all
  then show "fst (handshake E w) = Panic \<longleftrightarrow> \<not> list_ex (\<lambda>m. Channel m = ''/meta/handshake'') ms"
    by (auto simp: handshake_def split: prod.splits sum.splits option.splits)
  let ?d = "request0\<lparr> request.Channel := ''/meta/disconnect'', request.ClientId := clientId w \<rparr>"
  from send_reply_nil [of ?d "[?d]" w ms E] assms
  have "fst (send E ?d w) = Inr None \<longleftrightarrow> \<not> list_ex (\<lambda>m. Channel m = ''/meta/disconnect'') ms"
    and "\<exists>reply. fst (send E ?d w) = Inr reply"
    by simp_all
  then show "fst (disconnect E w) = Panic \<longleftrightarrow> \<not> list_ex (\<lambda>m. Channel m = ''/meta/disconnect'') ms"
    by (auto simp: disconnect_def split: prod.splits sum.splits option.splits)
  let ?u = "request0\<lparr> request.Channel := ''/meta/unsubscribe'', request.ClientId := clientId w,
                     request.Subscription := p \<rparr>"
  from send_reply_nil [of ?u "[?u]" w ms E] assms
  have "fst (send E ?u w) = Inr None \<longleftrightarrow> \<not> list_ex (\<lambda>m. Channel m = ''/meta/unsubscribe'') ms"
    and "\<exists>reply. fst (send E ?u w) = Inr reply"
    by simp_all
  then show "fst (Unsubscribe E p w) = Panic \<longleftrightarrow> \<not> list_ex (\<lambda>m. Channel m = ''/meta/unsubscribe'') ms"
    by (auto simp: Unsubscribe_def split: prod.splits sum.splits option.splits)
qed

lemma subscribe_panic:
  assumes "\<And>p. http w (posts w @ [p]) = Response 200 (Envelopes ms)"
    and "Compile E p = Inr g" and "\<forall>e. ext \<noteq> Unencodable e"
  shows "fst (subscribe E p outc ext w) = Panic \<longleftrightarrow> \<not> list_ex (\<lambda>m. Channel m = ''/meta/subscribe'') ms"
proof -
  let ?s = "request0\<lparr> request.Channel := ''/meta/subscribe'',
                          request.ClientId := clientId w,
                          request.Subscription := p,
                          request.Extension := ext \<rparr>"
  have m: "Marshal ?s = Inr [?s]"
    using assms(3) by (cases ext) (simp_all add: Marshal_def request0_def)
  from send_reply_nil [OF m, of w ms E] assms(1)
  have "fst (send E ?s w) = Inr None \<longleftrightarrow> \<not> list_ex (\<lambda>m. Channel m = ''/meta/subscribe'') ms"
    and "\<exists>reply. fst (send E ?s w) = Inr reply"
    by simp_all
  then show ?thesis using assms(2)
    by (auto simp: subscribe_def split: prod.splits sum.splits option.splits)
qed

text \<open>
  C9. When the server answers the next post with status 200 and the batch \<open>ms\<close>:
  \<open>send\<close> returns a nil reply and a nil error exactly when no envelope of \<open>ms\<close> is on
  the channel of the request; and \<open>handshake\<close>, \<open>disconnect\<close>, \<open>Unsubscribe\<close> and (once
  the pattern has compiled) \<open>subscribe\<close>, which read \<^verbatim>\<open>rsp.Successful\<close> without a
  check, panic exactly when no envelope of \<open>ms\<close> is on the channel of their request.
\<close>

theorem nil_reply_panics:
  assumes "\<And>p. http w (posts w @ [p]) = Response 200 (Envelopes ms)"
  shows "((\<forall>e. request.Extension req \<noteq> Unencodable e) \<longrightarrow>
            (fst (send E req w) = Inr None
               \<longleftrightarrow> \<not> list_ex (\<lambda>m. Channel m = request.Channel req) ms))
         \<and> (fst (handshake E w) = Panic
               \<longleftrightarrow> \<not> list_ex (\<lambda>m. Channel m = ''/meta/handshake'') ms)
         \<and> (fst (disconnect E w) = Panic
               \<longleftrightarrow> \<not> list_ex (\<lambda>m. Channel m = ''/meta/disconnect'') ms)
         \<and> (fst (Unsubscribe E p w) = Panic
               \<longleftrightarrow> \<not> list_ex (\<lambda>m. Channel m = ''/meta/unsubscribe'') ms)
         \<and> ((\<exists>g. Compile E p = Inr g) \<longrightarrow> (\<forall>e. ext \<noteq> Unencodable e) \<longrightarrow>
              (fst (subscribe E p outc ext w) = Panic
                 \<longleftrightarrow> \<not> list_ex (\<lambda>m. Channel m = ''/meta/subscribe'') ms))"
proof -
  have "fst (send E req w) = Inr None
          \<longleftrightarrow> \<not> list_ex (\<lambda>m. Channel m = request.Channel req) ms"
    if "\<forall>e. request.Extension req \<noteq> Unencodable e"
  proof -
    from that have "Marshal req = Inr [req]"
      by (cases "request.Extension req") (simp_all add: Marshal_def)
    from send_reply_nil(1) [OF this, of w ms E] assms show ?thesis by simp
  qed
  moreover note ops_panic [OF assms]
  moreover have "fst (subscribe E p outc ext w) = Panic
                 \<longleftrightarrow> \<not> list_ex (\<lambda>m. Channel m = ''/meta/subscribe'') ms"
    if "\<exists>g. Compile E p = Inr g" "\<forall>e. ext \<noteq> Unencodable e"
    using that subscribe_panic [OF assms, of E p _ ext outc] by blast
  ultimately show ?thesis by blast
qed

text \<open>
  A batch that holds a pushed message and no reply.
\<close>

theorem nil_reply_panics_witness:
  "fst (handshake (example_env False) (example_world (serve [pushed ''/chat/a'' ''1''])))
     = Panic
   \<and> fst (Unsubscribe (example_env False) ''/foo/*''
            (example_world (serve [pushed ''/chat/a'' ''1'']))) = Panic
   \<and> fst (connect (example_env False) (example_world (serve [pushed ''/chat/a'' ''1''])))
     = Inr None"
proof -
  let ?w = "example_world (serve [pushed ''/chat/a'' ''1''])"
  let ?c = "request0\<lparr> request.Channel := ''/meta/connect'',
               request.ClientId := clientId ?w,
               request.ConnectionType := ''long-polling'' \<rparr>"
  have h: "\<And>p. http ?w (posts ?w @ [p]) = Response 200 (Envelopes [pushed ''/chat/a'' ''1''])"
    by (simp add: example_defs)
  have e: "\<forall>e. request.Extension ?c \<noteq> Unencodable e" by (simp add: request0_def)
  from nil_reply_panics [OF h, of ?c "example_env False" "''/foo/*''"] e
  show ?thesis by (simp add: connect_def pushed_def)
qed

subsection \<open>The worker's loop\<close>

lemma connect_fields:
  assumes "connect E w = (r, w1)"
  shows "tomb w1 = tomb w" "http w1 = http w" "subscriptions w1 = subscriptions w"
    "outs w1 = outs w" "closed_chans w1 = closed_chans w" "logged w1 = logged w"
  using assms send_fields' [of E _ w r w1] by (simp_all add: connect_def)

lemma worker_step_tomb:
  assumes "tomb w = Some t"
  shows "(\<exists>w1. worker E (r # rs) w = (Panicked, w1))
         \<or> (Dying t \<and> worker E (r # rs) w = (Returned, w))
         \<or> (\<exists>w1. tomb w1 = tomb w \<and> http w1 = http w \<and> worker E (r # rs) w = worker E rs w1)"
proof (cases r)
  case (Message_ready ks)
  show ?thesis
  proof (cases "messages w")
    case Nil
    with Message_ready assms show ?thesis by auto
  next
    case (Cons msg q)
    obtain res w1 where d: "deliver ks msg (w\<lparr>messages := q\<rparr>) = (res, w1)"
      by (cases "deliver ks msg (w\<lparr>messages := q\<rparr>)")
    show ?thesis
    proof (cases res)
      case Panic
      with Message_ready Cons assms d show ?thesis by simp
    next
      case (Return u)
      from deliver_frame [OF d] have "tomb w1 = tomb w" "http w1 = http w" by auto
      moreover have "worker E (r # rs) w = worker E rs w1"
        using Message_ready Cons d Return assms by simp
      ultimately show ?thesis by blast
    qed
  qed
next
  case Tomb_dying
  with assms show ?thesis by auto
next
  case Timer_fired
  obtain res w1 where c: "connect E w = (res, w1)" by (cases "connect E w")
  note f = connect_fields [OF c]
  show ?thesis
  proof (cases res)
    case (Inl err)
    have "worker E (r # rs) w = worker E rs (w1\<lparr>logged := logged w1 @ [err]\<rparr>)"
      using Timer_fired assms c Inl by simp
    moreover have "tomb (w1\<lparr>logged := logged w1 @ [err]\<rparr>) = tomb w"
      "http (w1\<lparr>logged := logged w1 @ [err]\<rparr>) = http w" using f by simp_all
    ultimately show ?thesis by blast
  next
    case (Inr rsp)
    have "worker E (r # rs) w = worker E rs w1"
      using Timer_fired assms c Inr by simp
    with f show ?thesis by blast
  qed
qed

lemma worker_not_returned:
  "tomb w = Some t \<Longrightarrow> \<not> Dying t \<Longrightarrow> fst (worker E rs w) \<noteq> Returned"
proof (induction rs arbitrary: w)
  case Nil
  show ?case by simp
next
  case (Cons r rs)
  from worker_step_tomb [OF Cons.prems(1), of E r rs] Cons.prems(2)
  consider w1 where "worker E (r # rs) w = (Panicked, w1)"
    | w1 where "tomb w1 = tomb w" "worker E (r # rs) w = worker E rs w1" by blast
  then show ?case
  proof cases
    case 1
    then show ?thesis by simp
  next
    case 2
    with Cons.IH [of w1] Cons.prems show ?thesis by simp
  qed
qed

lemma worker_failed_connects:
  assumes "tomb w = Some t" and "\<forall>ps. \<not> accepted (http w ps)"
  shows "\<exists>ps l. worker E (replicate n Timer_fired) w = (Running, w\<lparr>posts := ps, logged := l\<rparr>)
           \<and> length l = length (logged w) + n
           \<and> length ps = length (posts w) + n"
  using assms
proof (induction n arbitrary: w)
  case 0
  show ?case
    by (rule exI [of _ "posts w"], rule exI [of _ "logged w"]) simp
next
  case (Suc n)
  let ?req = "request0\<lparr> request.Channel := ''/meta/connect'',
               request.ClientId := clientId w,
               request.ConnectionType := ''long-polling'' \<rparr>"
  let ?w1 = "w\<lparr>posts := posts w @ [(url w, ''application/json'', [?req])]\<rparr>"
  from Suc.prems(2) have "\<not> accepted (http w (posts w @ [(url w, ''application/json'', [?req])]))"
    by blast
  from send_error_if_not_accepted [OF _ this, of ?req E]
  obtain err where c: "connect E w = (Inl err, ?w1)"
    by (auto simp: connect_def)
  let ?w2 = "?w1\<lparr>logged := logged ?w1 @ [err]\<rparr>"
  have step: "worker E (replicate (Suc n) Timer_fired) w = worker E (replicate n Timer_fired) ?w2"
    using Suc.prems(1) c by simp
  have "tomb ?w2 = Some t" "\<forall>ps. \<not> accepted (http ?w2 ps)"
    using Suc.prems by simp_all
  from Suc.IH [OF this] obtain ps l where
    "worker E (replicate n Timer_fired) ?w2 = (Running, ?w2\<lparr>posts := ps, logged := l\<rparr>)"
    "length l = length (logged ?w2) + n" "length ps = length (posts ?w2) + n"
    by blast
  then have "worker E (replicate (Suc n) Timer_fired) w = (Running, w\<lparr>posts := ps, logged := l\<rparr>)"
    "length l = length (logged w) + Suc n" "length ps = length (posts w) + Suc n"
    unfolding step by simp_all
  then show ?case by blast
qed

lemma worker_returned_dying:
  "fst (worker E rs w) = Returned \<Longrightarrow> \<exists>t. tomb w = Some t \<and> Dying t"
proof (cases "tomb w")
  case None
  assume "fst (worker E rs w) = Returned"
  with None show ?thesis by (cases rs) simp_all
next
  case (Some t)
  assume "fst (worker E rs w) = Returned"
  with worker_not_returned [OF Some, of E rs] Some show ?thesis by auto
qed

lemma worker_ticks_running:
  "tomb w \<noteq> None \<Longrightarrow> fst (worker E (replicate n Timer_fired) w) = Running"
proof (induction n arbitrary: w)
  case 0
  show ?case by simp
next
  case (Suc n)
  obtain res w1 where c: "connect E w = (res, w1)" by (cases "connect E w")
  from connect_fields(1) [OF c] Suc.prems have t: "tomb w1 \<noteq> None" by simp
  show ?case
  proof (cases res)
    case (Inl err)
    have "tomb (w1\<lparr>logged := logged w1 @ [err]\<rparr>) \<noteq> None" using t by simp
    from Suc.IH [OF this] Suc.prems c Inl show ?thesis by auto
  next
    case (Inr rsp)
    from Suc.IH [OF t] Suc.prems c Inr show ?thesis by auto
  qed
qed

subsection \<open>The tomb\<close>

lemma handshake_tomb: "tomb (snd (handshake E w)) = tomb w"
proof -
  let ?h = "request0\<lparr> request.Channel := ''/meta/handshake'',
                     request.Version := VERSION,
                     request.MinimumVersion := MINIMUM_VERSION,
                     request.SupportedConnectionTypes := [''long-polling''] \<rparr>"
  obtain r w1 where s: "send E ?h w = (r, w1)" by (cases "send E ?h w")
  from send_fields' [OF s] have "tomb w1 = tomb w" by simp
  with s show ?thesis
    by (auto simp: handshake_def split: sum.splits option.splits)
qed

lemma subscribe_tomb: "tomb (snd (subscribe E p outc ext w)) = tomb w"
proof -
  let ?s = "request0\<lparr> request.Channel := ''/meta/subscribe'',
                          request.ClientId := clientId w,
                          request.Subscription := p,
                          request.Extension := ext \<rparr>"
  obtain r w1 where s: "send E ?s w = (r, w1)" by (cases "send E ?s w")
  from send_fields' [OF s] have "tomb w1 = tomb w" by simp
  with s show ?thesis
    by (auto simp: subscribe_def split: sum.splits option.splits)
qed

lemma Unsubscribe_tomb: "tomb (snd (Unsubscribe E p w)) = tomb w"
proof -
  let ?u = "request0\<lparr> request.Channel := ''/meta/unsubscribe'', request.ClientId := clientId w,
                     request.Subscription := p \<rparr>"
  obtain r w1 where s: "send E ?u w = (r, w1)" by (cases "send E ?u w")
  from send_fields' [OF s] have "tomb w1 = tomb w" by simp
  with s show ?thesis
    by (auto simp: Unsubscribe_def doForgetSubscription_def split: sum.splits option.splits)
qed

lemma ensureConnected_tomb:
  "tomb (snd (ensureConnected E w)) =
     (if \<not> connected w \<and> fst (ensureConnected E w) = Return None
      then Some \<lparr>reason = None\<rparr> else tomb w)"
proof (cases "connected w")
  case True
  then show ?thesis by (simp add: ensureConnected_def)
next
  case False
  obtain r w1 where h: "handshake E w = (r, w1)" by (cases "handshake E w")
  with handshake_tomb [of E w] have "tomb w1 = tomb w" by simp
  with False h show ?thesis
    by (auto simp: ensureConnected_def split: outcome.splits option.splits)
qed

lemma Close_kills:
  assumes "tomb w = Some t"
  shows "\<exists>t'. tomb (snd (Close E w)) = Some t' \<and> Dying t'"
proof -
  let ?w = "w\<lparr>tomb := Some (Killf ''Close'' t), connected := False\<rparr>"
  let ?d = "request0\<lparr> request.Channel := ''/meta/disconnect'', request.ClientId := clientId ?w \<rparr>"
  obtain r w1 where s: "send E ?d ?w = (r, w1)" by (cases "send E ?d ?w")
  from send_fields' [OF s] have "tomb w1 = Some (Killf ''Close'' t)" by simp
  moreover have "Dying (Killf ''Close'' t)"
    by (simp add: Dying_def Killf_def split: option.splits)
  moreover have "snd (Close E w) = w1"
    using assms s by (auto simp: Close_def disconnect_def split: sum.splits option.splits)
  ultimately show ?thesis by simp
qed

lemma ensureConnected_not_killed:
  "\<not> killed w \<Longrightarrow> \<not> killed (snd (ensureConnected E w))"
  using ensureConnected_tomb [of E w] by (simp add: killed_def Dying_def split: if_splits)

lemma SubscribeExt_not_killed:
  assumes "\<not> killed w"
  shows "\<not> killed (snd (SubscribeExt E p outc ext w))"
proof -
  obtain r w1 where e: "ensureConnected E w = (r, w1)" by (cases "ensureConnected E w")
  with ensureConnected_not_killed [OF assms, of E] have k: "\<not> killed w1" by simp
  show ?thesis
  proof (cases "r = Return None")
    case True
    with e have "snd (SubscribeExt E p outc ext w) = snd (subscribe E p outc ext w1)"
      by (simp add: SubscribeExt_def)
    with subscribe_tomb [of E p outc ext w1] k show ?thesis by (simp add: killed_def)
  next
    case False
    with e have "snd (SubscribeExt E p outc ext w) = w1"
      by (auto simp: SubscribeExt_def split: outcome.splits option.splits)
    with k show ?thesis by simp
  qed
qed

text \<open>
  C8. Along any schedule, the worker has returned only if its tomb is dying. After
  \<open>n\<close> firings of the timer, whatever the server answered, the worker is running;
  and when every post failed (no response is accepted) it has made \<open>n\<close> posts and
  logged \<open>n\<close> errors, whatever \<open>n\<close> is, and changed nothing else. \<open>Close\<close> makes
  the tomb dying, and \<open>Connect\<close>, \<open>SubscribeExt\<close> and \<open>Unsubscribe\<close> do not.
\<close>

theorem worker_returns_only_when_killed:
  "(fst (worker E rs w) = Returned \<longrightarrow> killed w)
   \<and> (tomb w \<noteq> None \<longrightarrow>
        fst (worker E (replicate n Timer_fired) w) = Running
        \<and> ((\<forall>ps. \<not> accepted (http w ps)) \<longrightarrow>
             (\<exists>ps l. snd (worker E (replicate n Timer_fired) w) = w\<lparr>posts := ps, logged := l\<rparr>
                \<and> length l = length (logged w) + n
                \<and> length ps = length (posts w) + n)))
   \<and> (tomb w \<noteq> None \<longrightarrow> killed (snd (Close E w)))
   \<and> (\<not> killed w \<longrightarrow>
        \<not> killed (snd (Connect E w))
        \<and> \<not> killed (snd (SubscribeExt E p outc ext w))
        \<and> \<not> killed (snd (Unsubscribe E p w)))"
proof -
  have "\<exists>ps l. snd (worker E (replicate n Timer_fired) w) = w\<lparr>posts := ps, logged := l\<rparr>
                \<and> length l = length (logged w) + n
                \<and> length ps = length (posts w) + n"
    if "tomb w \<noteq> None" "\<forall>ps. \<not> accepted (http w ps)"
  proof -
    from that(1) obtain t where "tomb w = Some t" by auto
    from worker_failed_connects [OF this that(2), of E n] obtain ps l where
      "worker E (replicate n Timer_fired) w = (Running, w\<lparr>posts := ps, logged := l\<rparr>)"
      and len: "length l = length (logged w) + n" "length ps = length (posts w) + n"
      by blast
    then have "snd (worker E (replicate n Timer_fired) w) = w\<lparr>posts := ps, logged := l\<rparr>"
      by simp
    with len show ?thesis by blast
  qed
  moreover have "fst (worker E rs w) = Returned \<longrightarrow> killed w"
    using worker_returned_dying [of E rs w] by (auto simp: killed_def)
  moreover have "tomb w \<noteq> None \<longrightarrow> killed (snd (Close E w))"
    using Close_kills [of w _ E] by (auto simp: killed_def)
  moreover have "\<not> killed (snd (Connect E w))
        \<and> \<not> killed (snd (SubscribeExt E p outc ext w))
        \<and> \<not> killed (snd (Unsubscribe E p w))" if "\<not> killed w"
    using that ensureConnected_not_killed [of w E] SubscribeExt_not_killed [of w E p outc ext]
      Unsubscribe_tomb [of E p w]
    by (simp add: Connect_def killed_def)
  ultimately show ?thesis using worker_ticks_running [of w E n] by blast
qed

text \<open>
  A server that answers 503 to every post: three firings of the timer log three errors,
  and the worker returns only once \<open>Close\<close> has killed the tomb.
\<close>

theorem worker_returns_only_when_killed_witness:
  "fst (worker (example_env False) (replicate 3 Timer_fired)
         (foo_world (answering 503 (Envelopes [])))) = Running
   \<and> length (logged (snd (worker (example_env False) (replicate 3 Timer_fired)
         (foo_world (answering 503 (Envelopes [])))))) = 3
   \<and> fst (worker (example_env False) [Timer_fired, Tomb_dying, Timer_fired]
         (foo_world (answering 503 (Envelopes [])))) = Running
   \<and> fst (worker (example_env False) [Timer_fired, Tomb_dying, Timer_fired]
         (snd (Close (example_env False) (foo_world (answering 503 (Envelopes []))))))
       = Returned"
proof -
  let ?E = "example_env False"
  let ?w = "foo_world (answering 503 (Envelopes []))"
  have t: "tomb ?w \<noteq> None" by (simp add: foo_world_def)
  have f: "\<forall>ps. \<not> accepted (http ?w ps)"
    by (simp add: accepted_def example_defs more_example_defs)
  have l: "logged ?w = []" by (simp add: example_defs more_example_defs)
  have a: "fst (worker ?E [Timer_fired, Tomb_dying, Timer_fired] ?w) = Running"
    by (simp add: connect_def Dying_def eval_defs)
  have b: "fst (worker ?E [Timer_fired, Tomb_dying, Timer_fired] (snd (Close ?E ?w))) = Returned"
    by (simp add: connect_def Close_def disconnect_def Killf_def Dying_def eval_defs)
  note ticks = worker_returns_only_when_killed
    [of ?E "[]" ?w 3, THEN conjunct2, THEN conjunct1, rule_format, OF t]
  note r = ticks [THEN conjunct1]
  from ticks [THEN conjunct2, THEN mp, OF f] obtain ps l'
    where "snd (worker ?E (replicate 3 Timer_fired) ?w) = ?w\<lparr>posts := ps, logged := l'\<rparr>"
      and "length l' = length (logged ?w) + 3"
    by blast
  then have "length (logged (snd (worker ?E (replicate 3 Timer_fired) ?w))) = 3"
    using l by simp
  with r a b show ?thesis by simp
qed



end
